theory Spec2Isabelle
  imports Main "HOL-Library.Word" "HOL-Library.AList"
begin

unbundle bit_operations_syntax

section \<open>The binding: src/src/hysteria2.cpp\<close>

subsection \<open>Data\<close>

text \<open>
  The build targets a 64-bit platform (the source special-cases \<^verbatim>\<open>_WIN64\<close>), so
  \<^verbatim>\<open>size_t\<close>, \<^verbatim>\<open>ptrdiff_t\<close> and pointers are 64-bit words; \<^verbatim>\<open>ptrdiff_t\<close> is read
  with \<open>sint\<close>, \<^verbatim>\<open>size_t\<close> with \<open>unat\<close>.
\<close>

type_synonym byte = "8 word"
type_synonym addr = "64 word"
type_synonym memory = "addr \<Rightarrow> byte"

text \<open>
  A \<^verbatim>\<open>std::string\<close> as \<^verbatim>\<open>startFromJSON\<close> uses it: only \<^verbatim>\<open>data()\<close> and
  \<^verbatim>\<open>size()\<close> are read.
\<close>

record std_string =
  str_data :: addr
  str_size :: "64 word"

text \<open>
  Modelled from the spec: \<^verbatim>\<open>GoString\<close> is declared in \<^verbatim>\<open>hysteria2.h\<close>, the header
  generated with the client library, which is not among the sources (the spec speaks of
  "a serialized configuration" passed to the entry point). Its two members, a character
  pointer and a \<^verbatim>\<open>ptrdiff_t\<close> length, in this order, are read off the brace initialiser
  in \<^verbatim>\<open>startFromJSON\<close>.
\<close>

record GoString =
  gs_p :: addr
  gs_n :: "64 word"

text \<open>The bytes a pointer and a length denote in a memory.\<close>

definition bytes_at :: "memory \<Rightarrow> addr \<Rightarrow> nat \<Rightarrow> byte list" where
  "bytes_at m a k = map (\<lambda>i. m (a + of_nat i)) [0..<k]"

definition string_bytes :: "memory \<Rightarrow> std_string \<Rightarrow> byte list" where
  "string_bytes m js = bytes_at m (str_data js) (unat (str_size js))"

definition go_bytes :: "memory \<Rightarrow> GoString \<Rightarrow> byte list" where
  "go_bytes m gs = bytes_at m (gs_p gs) (nat (sint (gs_n gs)))"

subsection \<open>The calling thread\<close>

text \<open>
  What the calling thread does is logged in a trace, so that the order of the lock
  operations and of the call into the client library can be stated.
\<close>

datatype event = GilReleased | GilAcquired | ClientCall GoString | ClientReturn

datatype failure = FatalError | Deadlock | NeverReturns

record process =
  gil_held :: bool
  mem :: memory
  trace :: "event list"

text \<open>
  A step either returns the new state, or stops the thread with the reason and the state
  it stopped in.
\<close>

type_synonym 'a outcome = "(failure \<times> process) + 'a"

definition and_then :: "'a outcome \<Rightarrow> ('a \<Rightarrow> 'b outcome) \<Rightarrow> 'b outcome" where
  "and_then r f = (case r of Inl e \<Rightarrow> Inl e | Inr x \<Rightarrow> f x)"

text \<open>
  Modelled from the spec: \<^verbatim>\<open>PyEval_SaveThread\<close> belongs to the Python C API, which is
  not among the sources; it is how the binding "releases an interpreter-level lock". As
  documented, it gives the lock up, and it is a fatal error in a thread that does not
  hold the lock.
\<close>

definition PyEval_SaveThread :: "process \<Rightarrow> process outcome" where
  "PyEval_SaveThread s =
     (if gil_held s
      then Inr (s\<lparr>gil_held := False, trace := trace s @ [GilReleased]\<rparr>)
      else Inl (FatalError, s))"

text \<open>
  Modelled from the spec: \<^verbatim>\<open>PyEval_RestoreThread\<close> belongs to the Python C API, which
  is not among the sources; it takes the interpreter lock back. As documented, a thread
  that already holds the lock deadlocks.
\<close>

definition PyEval_RestoreThread :: "process \<Rightarrow> process outcome" where
  "PyEval_RestoreThread s =
     (if gil_held s
      then Inl (Deadlock, s)
      else Inr (s\<lparr>gil_held := True, trace := trace s @ [GilAcquired]\<rparr>))"

text \<open>
  Modelled from the spec: \<^verbatim>\<open>py::gil_scoped_release\<close> comes from
  \<^verbatim>\<open>pybind11/pybind11.h\<close>, which is not among the sources; it is the guard with which
  the binding is "not holding any host-runtime global lock while this call blocks". As
  documented, its constructor saves the thread, which releases the lock.
\<close>

definition gil_scoped_release_ctor :: "process \<Rightarrow> process outcome" where
  "gil_scoped_release_ctor s = PyEval_SaveThread s"

text \<open>
  Modelled from the spec: the destructor of \<^verbatim>\<open>py::gil_scoped_release\<close>
  (\<^verbatim>\<open>pybind11/pybind11.h\<close>, not among the sources) restores the thread, which takes
  the interpreter lock again.
\<close>

definition gil_scoped_release_dtor :: "process \<Rightarrow> process outcome" where
  "gil_scoped_release_dtor s = PyEval_RestoreThread s"

text \<open>
  Modelled from the spec: the constructor of \<^verbatim>\<open>py::gil_scoped_acquire\<close>
  (\<^verbatim>\<open>pybind11/pybind11.h\<close>, not among the sources) takes the interpreter lock unless
  the thread holds it, and remembers in the member \<^verbatim>\<open>release\<close> whether it did.
\<close>

definition gil_scoped_acquire_ctor :: "process \<Rightarrow> (bool \<times> process) outcome" where
  "gil_scoped_acquire_ctor s =
     (let release = \<not> gil_held s in
      if release
      then and_then (PyEval_RestoreThread s) (\<lambda>s'. Inr (release, s'))
      else Inr (release, s))"

text \<open>
  Modelled from the spec: the destructor of \<^verbatim>\<open>py::gil_scoped_acquire\<close>
  (\<^verbatim>\<open>pybind11/pybind11.h\<close>, not among the sources) gives the interpreter lock up again
  when the member \<^verbatim>\<open>release\<close> is set.
\<close>

definition gil_scoped_acquire_dtor :: "bool \<Rightarrow> process \<Rightarrow> process outcome" where
  "gil_scoped_acquire_dtor release s = (if release then PyEval_SaveThread s else Inr s)"

text \<open>
  The exported entry point \<^verbatim>\<open>startClientFromJSON\<close> is declared in \<^verbatim>\<open>hysteria2.h\<close>
  and implemented in the linked client library; it is a parameter of the model: a
  function of the \<^verbatim>\<open>GoString\<close> it is passed and of the memory, which gives the memory
  it leaves behind, or \<open>None\<close> when it never returns (it runs the client until failure
  or shutdown). It is not Python code and does not touch the interpreter lock.
\<close>

type_synonym client = "GoString \<Rightarrow> memory \<Rightarrow> memory option"

text \<open>Line 20: the call, logged on entry and on return.\<close>

definition call_startClientFromJSON :: "client \<Rightarrow> GoString \<Rightarrow> process \<Rightarrow> process outcome" where
  "call_startClientFromJSON startClientFromJSON gs s =
     (let s1 = s\<lparr>trace := trace s @ [ClientCall gs]\<rparr> in
      case startClientFromJSON gs (mem s1) of
        None \<Rightarrow> Inl (NeverReturns, s1)
      | Some m \<Rightarrow> Inr (s1\<lparr>mem := m, trace := trace s1 @ [ClientReturn]\<rparr>))"

subsection \<open>startFromJSON\<close>

text \<open>
  Line 15: \<^verbatim>\<open>GoString jsonString{json.data(), static_cast<ptrdiff_t>(json.size())}\<close>.
  The cast from \<^verbatim>\<open>size_t\<close> to \<^verbatim>\<open>ptrdiff_t\<close> keeps the 64 bits.
\<close>

definition make_GoString :: "std_string \<Rightarrow> GoString" where
  "make_GoString json = \<lparr>gs_p = str_data json, gs_n = ucast (str_size json)\<rparr>"

text \<open>
  Lines 13 to 24. The inner block constructs \<^verbatim>\<open>release\<close>, calls the client, constructs
  \<^verbatim>\<open>acquire\<close>, and at its end destroys \<^verbatim>\<open>acquire\<close> and then \<^verbatim>\<open>release\<close>
  (destructors run in the reverse order of construction). The function returns no value:
  its result is the state it leaves.
\<close>

definition startFromJSON :: "client \<Rightarrow> std_string \<Rightarrow> process \<Rightarrow> process outcome" where
  "startFromJSON startClientFromJSON json s =
     (let jsonString = make_GoString json in
      and_then (gil_scoped_release_ctor s) (\<lambda>s1.
      and_then (call_startClientFromJSON startClientFromJSON jsonString s1) (\<lambda>s2.
      and_then (gil_scoped_acquire_ctor s2) (\<lambda>(release, s3).
      and_then (gil_scoped_acquire_dtor release s3) (\<lambda>s4.
      gil_scoped_release_dtor s4)))))"

subsection \<open>Reading a trace\<close>

definition outcome_state :: "process outcome \<Rightarrow> process" where
  "outcome_state r = (case r of Inl (f, s) \<Rightarrow> s | Inr s \<Rightarrow> s)"

text \<open>The events a run from \<open>s\<close> with outcome \<open>r\<close> added to the trace.\<close>

definition new_events :: "process \<Rightarrow> process outcome \<Rightarrow> event list" where
  "new_events s r = drop (length (trace s)) (trace (outcome_state r))"

fun client_calls :: "event list \<Rightarrow> GoString list" where
  "client_calls [] = []"
| "client_calls (ClientCall gs # es) = gs # client_calls es"
| "client_calls (e # es) = client_calls es"

text \<open>
  Replaying a trace from a lock state: the lock state at every entry into and every
  return from the client.
\<close>

fun gil_at_client :: "bool \<Rightarrow> event list \<Rightarrow> bool list" where
  "gil_at_client held [] = []"
| "gil_at_client held (GilReleased # es) = gil_at_client False es"
| "gil_at_client held (GilAcquired # es) = gil_at_client True es"
| "gil_at_client held (ClientCall gs # es) = held # gil_at_client held es"
| "gil_at_client held (ClientReturn # es) = held # gil_at_client held es"

subsection \<open>The module definition\<close>

text \<open>
  What a module built by the binding holds: its name, the functions bound in it, each
  with its documentation string, its named arguments and the C++ types of its signature,
  and its attributes.
\<close>

datatype cpp_type = StdString | Void

record py_arg =
  arg_name :: string
  arg_type :: cpp_type

record py_function =
  fn_name :: string
  fn_doc :: string
  fn_args :: "py_arg list"
  fn_result :: cpp_type

record py_module =
  mod_name :: string
  mod_functions :: "py_function list"
  mod_attrs :: "(string \<times> string) list"

text \<open>
  Modelled from the spec: \<^verbatim>\<open>module_::def\<close> comes from \<^verbatim>\<open>pybind11/pybind11.h\<close>, which
  is not among the sources (the spec names "the host language binding" only as a
  collaborator). As documented, it binds a function in the module, with the argument names
  given by \<^verbatim>\<open>py::arg\<close>.
\<close>

definition module_def :: "py_module \<Rightarrow> py_function \<Rightarrow> py_module" where
  "module_def m f = m\<lparr>mod_functions := mod_functions m @ [f]\<rparr>"

text \<open>
  Modelled from the spec: assigning to \<^verbatim>\<open>module_::attr\<close> (\<^verbatim>\<open>pybind11/pybind11.h\<close>, not
  among the sources) sets the attribute of that name.
\<close>

definition module_set_attr :: "py_module \<Rightarrow> string \<Rightarrow> string \<Rightarrow> py_module" where
  "module_set_attr m k v = m\<lparr>mod_attrs := AList.update k v (mod_attrs m)\<rparr>"

text \<open>
  Modelled from the spec: the macro \<^verbatim>\<open>PYBIND11_MODULE\<close> (\<^verbatim>\<open>pybind11/pybind11.h\<close>, not
  among the sources) creates the module of the given name and runs the body on it.
\<close>

definition PYBIND11_MODULE :: "string \<Rightarrow> (py_module \<Rightarrow> py_module) \<Rightarrow> py_module" where
  "PYBIND11_MODULE name body =
     body \<lparr>mod_name = name, mod_functions = [], mod_attrs = []\<rparr>"

text \<open>
  Lines 27 to 32, the body of the module. The signature of the bound function is that of
  line 13, \<^verbatim>\<open>void startFromJSON(const std::string& json)\<close>.
\<close>

definition hysteria2_body :: "py_module \<Rightarrow> py_module" where
  "hysteria2_body m =
     (let m1 = module_def m
            \<lparr>fn_name = ''startFromJSON'',
             fn_doc = ''Start Hysteria2 client with JSON'',
             fn_args = [\<lparr>arg_name = ''json'', arg_type = StdString\<rparr>],
             fn_result = Void\<rparr>
      in module_set_attr m1 ''__version__'' ''2.7.0'')"

text \<open>Line 26: \<^verbatim>\<open>PYBIND11_MODULE(hysteria2, m)\<close>.\<close>

definition hysteria2 :: py_module where
  "hysteria2 = PYBIND11_MODULE ''hysteria2'' hysteria2_body"

section \<open>The client core\<close>

text \<open>
  The binding only starts the client. The client itself, the library behind
  \<^verbatim>\<open>startClientFromJSON\<close>, is not among the sources; the Transport Session Manager,
  the Authentication Negotiator, the Congestion Controller and the Stream Multiplexer are
  modelled here as the spec describes them (sections 3, 4 and 7). Real time (backoff
  delays, idle expiry, timeouts) and the scheduling of concurrent tasks are left out: the
  model is the sequence of operations the components perform on the state they share.
  The Obfuscator is not modelled: the spec leaves its scheme open.
\<close>

subsection \<open>Data model\<close>

text \<open>
  Modelled from the spec: the health states of a Session (spec 3), missing from the
  sources: "current health state (Connecting, Authenticating, Active, Failed, Closing)".
\<close>

datatype health = Connecting | Authenticating | Active | Failed | Closing

text \<open>
  Modelled from the spec: the two strategies of the Congestion Controller (spec 4.3),
  missing from the sources: bandwidth-aware, "given a fixed declared throughput ceiling",
  and the loss-based fallback.
\<close>

datatype congestion_mode = BandwidthAware nat | LossBased

text \<open>
  Modelled from the spec: \<open>CongestionState\<close> (spec 3), missing from the sources:
  "current send window / pacing rate, estimated round-trip time, loss/ack counters".
\<close>

record CongestionState =
  window :: nat
  rtt_estimate :: nat
  ack_count :: nat
  loss_count :: nat

text \<open>
  Modelled from the spec: the capabilities a server declares (spec 3 and 4.2), missing
  from the sources: "UDP-enabled flag, server-declared bandwidth".
\<close>

record ServerCapabilities =
  udp_enabled :: bool
  server_bandwidth :: nat

text \<open>
  Modelled from the spec: \<open>Session\<close> (spec 3), missing from the sources: "connection
  handle, negotiated server capabilities ..., current health state"; its
  \<open>CongestionState\<close> is "one instance per Session; discarded with the Session". The
  connection handle is the id of the Session.
\<close>

record Session =
  session_id :: nat
  capabilities :: ServerCapabilities
  health :: health
  congestion :: CongestionState

text \<open>
  Modelled from the spec: \<open>StreamHandle\<close> (spec 3), missing from the sources: "stream
  id (opaque, assigned by transport), proxied destination (host:port), direction, byte
  counters", and the Session it was opened on, by id. The direction is left out.
\<close>

record StreamHandle =
  stream_id :: nat
  stream_session :: nat
  destination :: string
  bytes_sent :: nat
  bytes_received :: nat

text \<open>
  Modelled from the spec: \<open>UDPFlow\<close> (spec 3), missing from the sources: "flow id,
  source/destination address pair, idle-expiry timestamp", and the Session it was opened
  on, by id. The timestamp is left out.
\<close>

record UDPFlow =
  flow_id :: nat
  flow_session :: nat
  flow_addresses :: "string \<times> string"

text \<open>
  Modelled from the spec: \<open>ClientConfig\<close> (spec 3), missing from the sources: the
  fields the operations below read. The retry bound, the initial window and the window
  ceiling are the policy constants the spec leaves to configuration (spec 4.1, 4.3, 9).
\<close>

record ClientConfig =
  server_address :: string
  auth_secret :: string
  mode :: congestion_mode
  max_retries :: nat
  initial_window :: nat
  window_ceiling :: nat

text \<open>
  Modelled from the spec: the error taxonomy (spec 7), missing from the sources:
  "ConnectError (transport-level, retryable), AuthError (credentials rejected,
  non-retryable - surfaced immediately), StreamError (per-stream failure ...),
  ConfigError (fatal at startup, no retry), ObfuscationError (treated as ConnectError)".
\<close>

datatype core_error = ConnectError | AuthError string | StreamError | ConfigError | ObfuscationError

text \<open>
  Modelled from the spec: which failures the Session Manager retries internally (spec 7,
  as quoted above), missing from the sources. A per-stream failure goes to the local
  caller and is not retried by the Session Manager.
\<close>

fun retryable :: "core_error \<Rightarrow> bool" where
  "retryable ConnectError = True"
| "retryable (AuthError reason) = False"
| "retryable StreamError = False"
| "retryable ConfigError = False"
| "retryable ObfuscationError = True"

text \<open>
  Modelled from the spec: the structured response to the authentication request (spec
  4.2), missing from the sources: "accept/reject, reason string, server-declared UDP
  support, server-declared bandwidth estimate".
\<close>

datatype auth_response = Accept ServerCapabilities | Reject string

text \<open>
  The server as one connection attempt meets it: the attempt fails at transport level, or
  it gives a raw connection, on which the server answers the authentication request that
  carries the secret.
\<close>

type_synonym raw_connection = "string \<Rightarrow> auth_response"

type_synonym attempt = "core_error + raw_connection"

text \<open>
  Modelled from the spec: the state the components share (spec 3 and 5), missing from
  the sources: the current Session ("exactly one Session is current at a time"), the
  open handles and flows, the counters that give out fresh ids, the state-change events
  emitted so far (spec 4.1: "on every transition, emits a state-change event"), and the
  attempts the network still holds, in the order the Session Manager will meet them.
\<close>

record core =
  current :: "Session option"
  streams :: "StreamHandle list"
  flows :: "UDPFlow list"
  next_session_id :: nat
  next_stream_id :: nat
  next_flow_id :: nat
  events :: "(nat \<times> health) list"
  network :: "attempt list"

text \<open>The client before its first stream request.\<close>

definition initial :: "attempt list \<Rightarrow> core" where
  "initial net =
     \<lparr>current = None, streams = [], flows = [], next_session_id = 0, next_stream_id = 0,
      next_flow_id = 0, events = [], network = net\<rparr>"

text \<open>
  Modelled from the spec: the emission of a state-change event by the Session Manager
  (spec 4.1), missing from the sources.
\<close>

definition emit :: "nat \<Rightarrow> health \<Rightarrow> core \<Rightarrow> core" where
  "emit sid h c = c\<lparr>events := events c @ [(sid, h)]\<rparr>"

subsection \<open>Congestion Controller\<close>

text \<open>
  Modelled from the spec: the state a new Session starts from (spec 4.3), missing from
  the sources: the "initial slow-start parameters".
\<close>

definition initial_congestion :: "ClientConfig \<Rightarrow> CongestionState" where
  "initial_congestion cfg =
     \<lparr>window = initial_window cfg, rtt_estimate = 0, ack_count = 0, loss_count = 0\<rparr>"

text \<open>
  Modelled from the spec: \<^verbatim>\<open>onAck(bytes, rtt)\<close> of the Congestion Controller (spec
  4.3), missing from the sources. Loss-based mode: "doubling on sustained ack success up
  to a ceiling". Bandwidth-aware mode: the declared ceiling, "using measured RTT to bound
  in-flight bytes".
\<close>

definition onAck :: "ClientConfig \<Rightarrow> nat \<Rightarrow> nat \<Rightarrow> CongestionState \<Rightarrow> CongestionState" where
  "onAck cfg bytes rtt cs =
     cs\<lparr>window := (case mode cfg of
                      LossBased \<Rightarrow> min (window_ceiling cfg) (2 * window cs)
                    | BandwidthAware ceiling \<Rightarrow> ceiling * rtt),
        rtt_estimate := rtt,
        ack_count := ack_count cs + bytes\<rparr>"

text \<open>
  Modelled from the spec: \<^verbatim>\<open>onLoss(bytes)\<close> of the Congestion Controller (spec 4.3),
  missing from the sources. Loss-based mode: "halving on detected loss". Bandwidth-aware
  mode "does not back off on isolated loss".
\<close>

definition onLoss :: "ClientConfig \<Rightarrow> nat \<Rightarrow> CongestionState \<Rightarrow> CongestionState" where
  "onLoss cfg bytes cs =
     cs\<lparr>window := (case mode cfg of
                      LossBased \<Rightarrow> window cs div 2
                    | BandwidthAware ceiling \<Rightarrow> window cs),
        loss_count := loss_count cs + bytes\<rparr>"

text \<open>
  Modelled from the spec: the Congestion Controller is "the single mutator of
  CongestionState" (spec 5), missing from the sources; it acts on the state of the
  current Session, if there is one.
\<close>

definition on_current_congestion :: "(CongestionState \<Rightarrow> CongestionState) \<Rightarrow> core \<Rightarrow> core" where
  "on_current_congestion f c =
     (case current c of
        None \<Rightarrow> c
      | Some s \<Rightarrow> c\<lparr>current := Some (s\<lparr>congestion := f (congestion s)\<rparr>)\<rparr>)"

subsection \<open>Authentication Negotiator\<close>

text \<open>
  Modelled from the spec: the Authentication Negotiator (spec 4.2) is missing from the
  sources. Contract: \<^verbatim>\<open>authenticate(rawConnection, secret) -> ServerCapabilities |
  fails(AuthError)\<close>. It "sends a single authentication request containing the shared
  secret ... and awaits a structured response"; a reject "is not retried by this
  component - it is surfaced to the Session Manager as a non-retryable failure".
\<close>

definition authenticate :: "raw_connection \<Rightarrow> string \<Rightarrow> core_error + ServerCapabilities" where
  "authenticate rawConnection secret =
     (case rawConnection secret of
        Accept caps \<Rightarrow> Inr caps
      | Reject reason \<Rightarrow> Inl (AuthError reason))"

subsection \<open>Transport Session Manager\<close>

text \<open>
  Modelled from the spec: one connection attempt of the Transport Session Manager (spec
  4.1), missing from the sources. A new Session is Connecting; "a successful low-level
  connection is handed to the Authentication Negotiator before being published as
  Active; if authentication fails the attempt counts as a connection failure". The
  Session Manager is "the single writer of Session identity".
\<close>

definition attempt_once :: "ClientConfig \<Rightarrow> attempt \<Rightarrow> core \<Rightarrow> (core_error + Session) \<times> core" where
  "attempt_once cfg a c =
     (let sid = next_session_id c;
          c1 = emit sid Connecting (c\<lparr>next_session_id := Suc sid\<rparr>)
      in case a of
           Inl e \<Rightarrow> (Inl e, emit sid Failed c1)
         | Inr rawConnection \<Rightarrow>
             (let c2 = emit sid Authenticating c1
              in case authenticate rawConnection (auth_secret cfg) of
                   Inl e \<Rightarrow> (Inl e, emit sid Failed c2)
                 | Inr caps \<Rightarrow>
                     (let s = \<lparr>session_id = sid, capabilities = caps, health = Active,
                               congestion = initial_congestion cfg\<rparr>
                      in (Inr s, emit sid Active (c2\<lparr>current := Some s\<rparr>)))))"

text \<open>
  Modelled from the spec: the retry loop of the Transport Session Manager (spec 4.1 and
  7), missing from the sources: "transport/connect failures are retried internally by
  the Session Manager with backoff and never surfaced per-stream until retries are
  exhausted or the failure is non-retryable (auth rejection, config error)", "bounded by
  a maximum retry count". The second argument is the number of retries left, the third
  the attempts the network still holds; when it holds none (shutdown cancels the
  acquisition), the loop gives up.
\<close>

fun establish ::
  "ClientConfig \<Rightarrow> nat \<Rightarrow> attempt list \<Rightarrow> core \<Rightarrow> (core_error + Session) \<times> core"
where
  "establish cfg retries [] c = (Inl ConnectError, c\<lparr>network := []\<rparr>)"
| "establish cfg retries (a # net) c =
     (case attempt_once cfg a c of
        (Inr s, c') \<Rightarrow> (Inr s, c'\<lparr>network := net\<rparr>)
      | (Inl e, c') \<Rightarrow>
          (if retryable e
           then (case retries of
                   0 \<Rightarrow> (Inl e, c'\<lparr>network := net\<rparr>)
                 | Suc k \<Rightarrow> establish cfg k net c')
           else (Inl e, c'\<lparr>network := net\<rparr>)))"

text \<open>
  Modelled from the spec: \<^verbatim>\<open>acquireSession() -> Session | fails(ConnectError)\<close> of the
  Transport Session Manager (spec 4.1), missing from the sources: "maintains at most one
  active Session. On first stream request, or after a reported failure, attempts to
  establish a new encrypted connection".
\<close>

definition acquireSession :: "ClientConfig \<Rightarrow> core \<Rightarrow> (core_error + Session) \<times> core" where
  "acquireSession cfg c =
     (case current c of
        Some s \<Rightarrow> (Inr s, c)
      | None \<Rightarrow> establish cfg (max_retries cfg) (network c) c)"

text \<open>
  Modelled from the spec: \<^verbatim>\<open>onSessionFailure(reason)\<close> of the Transport Session Manager
  (spec 4.1 and 4.4), missing from the sources. The current Session fails and is
  discarded with its CongestionState; "on Session failure, all open StreamHandles and
  UDPFlows for that Session are immediately closed with a retryable error; the
  Multiplexer does not auto-migrate in-flight streams to a new Session".
\<close>

definition onSessionFailure :: "core \<Rightarrow> core" where
  "onSessionFailure c =
     (case current c of
        None \<Rightarrow> c
      | Some s \<Rightarrow>
          emit (session_id s) Failed
            (c\<lparr>current := None,
               streams := filter (\<lambda>h. stream_session h \<noteq> session_id s) (streams c),
               flows := filter (\<lambda>f. flow_session f \<noteq> session_id s) (flows c)\<rparr>))"

subsection \<open>Stream Multiplexer\<close>

text \<open>What \<^verbatim>\<open>close\<close> is called on: a StreamHandle or a UDPFlow, by id.\<close>

datatype handle = Stream nat | Flow nat

text \<open>
  Modelled from the spec: \<^verbatim>\<open>openStream(destination) -> StreamHandle |
  fails(StreamError)\<close> of the Stream Multiplexer (spec 4.4), missing from the sources.
  "Each openStream call acquires the current Session (triggering lazy connect if needed)
  and asks the transport for a new bidirectional stream tagged with the destination". A
  failure of the acquisition is what the caller gets.
\<close>

definition openStream :: "ClientConfig \<Rightarrow> string \<Rightarrow> core \<Rightarrow> (core_error + StreamHandle) \<times> core" where
  "openStream cfg dest c =
     (case acquireSession cfg c of
        (Inl e, c1) \<Rightarrow> (Inl e, c1)
      | (Inr s, c1) \<Rightarrow>
          (let h = \<lparr>stream_id = next_stream_id c1, stream_session = session_id s,
                    destination = dest, bytes_sent = 0, bytes_received = 0\<rparr>
           in (Inr h, c1\<lparr>streams := streams c1 @ [h],
                         next_stream_id := Suc (next_stream_id c1)\<rparr>)))"

text \<open>
  Modelled from the spec: \<^verbatim>\<open>openUDPFlow() -> UDPFlow | fails(StreamError)\<close> of the
  Stream Multiplexer (spec 4.4), missing from the sources. "All UDP flows for a Session
  share one stream"; "each flow id is unique within the lifetime of a Session" (spec 3).
\<close>

definition openUDPFlow :: "ClientConfig \<Rightarrow> string \<times> string \<Rightarrow> core \<Rightarrow> (core_error + UDPFlow) \<times> core" where
  "openUDPFlow cfg addrs c =
     (case acquireSession cfg c of
        (Inl e, c1) \<Rightarrow> (Inl e, c1)
      | (Inr s, c1) \<Rightarrow>
          (let f = \<lparr>flow_id = next_flow_id c1, flow_session = session_id s,
                    flow_addresses = addrs\<rparr>
           in (Inr f, c1\<lparr>flows := flows c1 @ [f],
                         next_flow_id := Suc (next_flow_id c1)\<rparr>)))"

text \<open>
  Modelled from the spec: \<^verbatim>\<open>close(handle)\<close> of the Stream Multiplexer (spec 4.4),
  missing from the sources. A handle is "destroyed when either endpoint closes or the
  parent Session fails" (spec 3).
\<close>

fun close :: "handle \<Rightarrow> core \<Rightarrow> core" where
  "close (Stream i) c = c\<lparr>streams := filter (\<lambda>h. stream_id h \<noteq> i) (streams c)\<rparr>"
| "close (Flow i) c = c\<lparr>flows := filter (\<lambda>f. flow_id f \<noteq> i) (flows c)\<rparr>"

text \<open>
  Modelled from the spec: a per-stream failure (spec 7), missing from the sources:
  "per-stream failures surface directly to the local caller that owns that
  connection/flow"; the stream ends as when an endpoint closes it.
\<close>

definition streamFailure :: "handle \<Rightarrow> core \<Rightarrow> core_error \<times> core" where
  "streamFailure h c = (StreamError, close h c)"

text \<open>
  Modelled from the spec: the relay of bytes on one stream (spec 4.4), missing from the
  sources: "a raw bidirectional byte pipe relayed 1:1 with the local application
  connection"; it moves the byte counters of the handle.
\<close>

definition relay :: "nat \<Rightarrow> nat \<Rightarrow> nat \<Rightarrow> core \<Rightarrow> core" where
  "relay i sent received c =
     c\<lparr>streams := map (\<lambda>h. if stream_id h = i
                             then h\<lparr>bytes_sent := bytes_sent h + sent,
                                    bytes_received := bytes_received h + received\<rparr>
                             else h) (streams c)\<rparr>"

subsection \<open>Executions\<close>

text \<open>
  What the local listeners, the transport and the network can ask of the core, one
  operation after the other.
\<close>

datatype command =
    OpenStream string
  | OpenUDPFlow "string \<times> string"
  | Close handle
  | StreamFails handle
  | SessionFails
  | Relay nat nat nat
  | Ack nat nat
  | Loss nat

fun step :: "ClientConfig \<Rightarrow> core \<Rightarrow> command \<Rightarrow> core" where
  "step cfg c (OpenStream dest) = snd (openStream cfg dest c)"
| "step cfg c (OpenUDPFlow addrs) = snd (openUDPFlow cfg addrs c)"
| "step cfg c (Close h) = close h c"
| "step cfg c (StreamFails h) = snd (streamFailure h c)"
| "step cfg c SessionFails = onSessionFailure c"
| "step cfg c (Relay i sent received) = relay i sent received c"
| "step cfg c (Ack bytes rtt) = on_current_congestion (onAck cfg bytes rtt) c"
| "step cfg c (Loss bytes) = on_current_congestion (onLoss cfg bytes) c"

definition run :: "ClientConfig \<Rightarrow> core \<Rightarrow> command list \<Rightarrow> core" where
  "run cfg c cmds = foldl (step cfg) c cmds"

text \<open>
  How often the Session with the given id has been published as Active, which the
  Session Manager does once the Authentication Negotiator has returned its capabilities.
\<close>

definition authentications :: "core \<Rightarrow> nat \<Rightarrow> nat" where
  "authentications c sid = length (filter (\<lambda>e. e = (sid, Active)) (events c))"

text \<open>How many connection attempts the events record.\<close>

definition attempts_made :: "core \<Rightarrow> nat" where
  "attempts_made c = length (filter (\<lambda>e. snd e = Connecting) (events c))"


subsection \<open>The invariant of the shared state\<close>

text \<open>
  Every open handle and flow carries an id below the next one to be given out and refers
  to the current Session; every event is about a Session that has been created; the
  current Session is Active, has been created, and has been published once; ids are not
  shared between open handles, nor between open flows.
\<close>

definition core_inv :: "core \<Rightarrow> bool" where
  "core_inv c \<longleftrightarrow>
     (\<forall>h \<in> set (streams c). stream_id h < next_stream_id c
         \<and> (\<exists>s. current c = Some s \<and> stream_session h = session_id s))
   \<and> (\<forall>f \<in> set (flows c). flow_id f < next_flow_id c
         \<and> (\<exists>s. current c = Some s \<and> flow_session f = session_id s))
   \<and> (\<forall>e \<in> set (events c). fst e < next_session_id c)
   \<and> (\<forall>s. current c = Some s \<longrightarrow>
         health s = Active \<and> session_id s < next_session_id c
         \<and> authentications c (session_id s) = 1)
   \<and> distinct (map stream_id (streams c))
   \<and> distinct (map flow_id (flows c))"

text \<open>
  What the retry loop achieves when it is started from \<open>c\<close> without a current Session:
  the invariant is kept, the handles and their counters are not touched, and afterwards
  either no Session is current, or a new, Active one with the initial congestion state.
\<close>

definition established :: "ClientConfig \<Rightarrow> core \<Rightarrow> (core_error + Session) \<times> core \<Rightarrow> bool" where
  "established cfg c r \<longleftrightarrow>
     core_inv (snd r)
   \<and> streams (snd r) = streams c \<and> flows (snd r) = flows c
   \<and> next_stream_id (snd r) = next_stream_id c \<and> next_flow_id (snd r) = next_flow_id c
   \<and> next_session_id c \<le> next_session_id (snd r)
   \<and> (case fst r of
         Inl e \<Rightarrow> current (snd r) = None
       | Inr s \<Rightarrow> current (snd r) = Some s \<and> health s = Active
                 \<and> congestion s = initial_congestion cfg
                 \<and> next_session_id c \<le> session_id s)"

text \<open>
  How a later state \<open>c'\<close> continues an earlier state \<open>c\<close>: the id counters have not gone
  back, and whatever is open in \<open>c'\<close> under an id that \<open>c\<close> had given out was open in
  \<open>c\<close> under that id on the same Session.
\<close>

definition continues :: "core \<Rightarrow> core \<Rightarrow> bool" where
  "continues c c' \<longleftrightarrow>
     next_stream_id c \<le> next_stream_id c'
   \<and> next_flow_id c \<le> next_flow_id c'
   \<and> (\<forall>h' \<in> set (streams c'). stream_id h' < next_stream_id c \<longrightarrow>
         (\<exists>h \<in> set (streams c). stream_id h = stream_id h' \<and> stream_session h = stream_session h'))
   \<and> (\<forall>f' \<in> set (flows c'). flow_id f' < next_flow_id c \<longrightarrow>
         (\<exists>f \<in> set (flows c). flow_id f = flow_id f' \<and> flow_session f = flow_session f'))"


text \<open>
  What the events and the network say of the current Session: the network holds what is
  left after the attempts made so far; the attempt that created the current Session, the
  one its id counts, gave a connection on which the server accepted the secret, the
  Authentication Negotiator returned the capabilities the Session carries, and the events
  record that the Session was Connecting, then Authenticating, then Active.
\<close>

definition auth_inv :: "ClientConfig \<Rightarrow> attempt list \<Rightarrow> core \<Rightarrow> bool" where
  "auth_inv cfg net c \<longleftrightarrow>
     network c = drop (next_session_id c) net
   \<and> (\<forall>s. current c = Some s \<longrightarrow>
         session_id s < length net
       \<and> (\<exists>conn. net ! session_id s = Inr conn
              \<and> conn (auth_secret cfg) = Accept (capabilities s)
              \<and> authenticate conn (auth_secret cfg) = Inr (capabilities s))
       \<and> (\<exists>before after. events c =
              before @ [(session_id s, Connecting), (session_id s, Authenticating),
                        (session_id s, Active)] @ after))"

subsection \<open>A configuration and two servers, for concrete runs\<close>

definition example_config :: ClientConfig where
  "example_config =
     \<lparr>server_address = ''example.org:443'', auth_secret = ''secret'', mode = LossBased,
      max_retries = 3, initial_window = 10, window_ceiling = 100\<rparr>"

definition accepting :: raw_connection where
  "accepting secret = Accept \<lparr>udp_enabled = True, server_bandwidth = 0\<rparr>"

definition rejecting :: raw_connection where
  "rejecting secret = Reject ''invalid credential''"


section \<open>Properties of the binding\<close>

subsection \<open>The three ways startFromJSON can go\<close>

lemma startFromJSON_not_held:
  "\<not> gil_held s \<Longrightarrow> startFromJSON client json s = Inl (FatalError, s)"
  by (simp add: startFromJSON_def gil_scoped_release_ctor_def PyEval_SaveThread_def and_then_def)

lemma startFromJSON_blocks:
  "gil_held s \<Longrightarrow> client (make_GoString json) (mem s) = None \<Longrightarrow>
   startFromJSON client json s =
     Inl (NeverReturns,
          s\<lparr>gil_held := False, trace := trace s @ [GilReleased, ClientCall (make_GoString json)]\<rparr>)"
  by (simp add: startFromJSON_def gil_scoped_release_ctor_def PyEval_SaveThread_def and_then_def
      call_startClientFromJSON_def Let_def)

lemma startFromJSON_returns:
  "gil_held s \<Longrightarrow> client (make_GoString json) (mem s) = Some m \<Longrightarrow>
   startFromJSON client json s =
     Inr (s\<lparr>gil_held := True, mem := m,
            trace := trace s @ [GilReleased, ClientCall (make_GoString json), ClientReturn,
                                GilAcquired, GilReleased, GilAcquired]\<rparr>)"
  by (simp add: startFromJSON_def gil_scoped_release_ctor_def PyEval_SaveThread_def and_then_def
      call_startClientFromJSON_def Let_def gil_scoped_acquire_ctor_def PyEval_RestoreThread_def
      gil_scoped_acquire_dtor_def gil_scoped_release_dtor_def)

lemma startFromJSON_Inr_cases:
  assumes "startFromJSON client json s = Inr s'"
  obtains m where "gil_held s" and "client (make_GoString json) (mem s) = Some m"
proof (cases "gil_held s")
  case False
  with assms show ?thesis by (simp add: startFromJSON_not_held)
next
  case held: True
  show ?thesis
  proof (cases "client (make_GoString json) (mem s)")
    case None
    with held assms show ?thesis
      by (simp add: startFromJSON_blocks [where client = client])
  next
    case (Some m)
    with held that show ?thesis by blast
  qed
qed

lemma sint_below_half:
  fixes w :: "64 word"
  assumes "unat w < 2 ^ 63"
  shows "sint w = int (unat w)"
proof -
  have "int (unat w) < int (2 ^ 63)"
    using assms by (rule iffD2 [OF of_nat_less_iff])
  then have up: "uint w < 2 ^ 63" by simp
  have "- (2 ^ 63) \<le> (0::int)" by simp
  also have "(0::int) \<le> uint w" by simp
  finally have lo: "- (2 ^ 63) \<le> uint w" .
  have "signed_take_bit 63 (uint w) = uint w"
    using lo up by (rule signed_take_bit_int_eq_self)
  then show ?thesis by (simp add: sint_uint)
qed

subsection \<open>C1: one call, with the bytes of the string\<close>

text \<open>
  Claim C1. For every string \<open>json\<close> passed to \<open>startFromJSON\<close> by a thread
  that holds the interpreter lock, the binding calls \<open>startClientFromJSON\<close> exactly
  once, with a \<open>GoString\<close> whose pointer is \<open>json.data()\<close> and whose length is
  \<open>json.size()\<close>, so that it denotes the bytes of the string as they are in memory on
  entry; the client runs on that memory, unmodified; and \<open>startFromJSON\<close> returns, a
  state and no value, exactly when that call returns, the return of the client being
  logged before the binding's last three lock operations. The length of a
  \<^verbatim>\<open>std::string\<close> is below \<open>2 ^ 63\<close> (its \<^verbatim>\<open>max_size()\<close>), which is what makes
  the \<^verbatim>\<open>ptrdiff_t\<close> read back as the size.
\<close>

theorem startFromJSON_passes_json_once:
  assumes "gil_held s" and "unat (str_size json) < 2 ^ 63"
  shows "gs_p (make_GoString json) = str_data json
       \<and> sint (gs_n (make_GoString json)) = int (unat (str_size json))
       \<and> go_bytes (mem s) (make_GoString json) = string_bytes (mem s) json
       \<and> client_calls (new_events s (startFromJSON client json s)) = [make_GoString json]
       \<and> (case client (make_GoString json) (mem s) of
            None \<Rightarrow> \<exists>s'. startFromJSON client json s = Inl (NeverReturns, s')
          | Some m \<Rightarrow> \<exists>s'. startFromJSON client json s = Inr s' \<and> mem s' = m
               \<and> new_events s (Inr s') =
                    [GilReleased, ClientCall (make_GoString json), ClientReturn,
                     GilAcquired, GilReleased, GilAcquired])"
proof -
  have len: "sint (gs_n (make_GoString json)) = int (unat (str_size json))"
    using assms(2) by (simp add: make_GoString_def sint_below_half)
  have ptr: "gs_p (make_GoString json) = str_data json"
    by (simp add: make_GoString_def)
  have bytes: "go_bytes (mem s) (make_GoString json) = string_bytes (mem s) json"
    unfolding go_bytes_def string_bytes_def len ptr by simp
  show ?thesis
  proof (cases "client (make_GoString json) (mem s)")
    case None
    have "startFromJSON client json s =
      Inl (NeverReturns,
          s\<lparr>gil_held := False, trace := trace s @ [GilReleased, ClientCall (make_GoString json)]\<rparr>)"
      using assms(1) None by (rule startFromJSON_blocks)
    with len ptr bytes None show ?thesis
      by (simp add: new_events_def outcome_state_def)
  next
    case (Some m)
    have "startFromJSON client json s =
      Inr (s\<lparr>gil_held := True, mem := m,
            trace := trace s @ [GilReleased, ClientCall (make_GoString json), ClientReturn,
                                GilAcquired, GilReleased, GilAcquired]\<rparr>)"
      using assms(1) Some by (rule startFromJSON_returns)
    with len ptr bytes Some show ?thesis
      by (simp add: new_events_def outcome_state_def)
  qed
qed

theorem startFromJSON_passes_json_once_witness:
  "gil_held \<lparr>gil_held = True, mem = (\<lambda>a. 0), trace = []\<rparr>
   \<and> unat (str_size \<lparr>str_data = 4096, str_size = 2\<rparr>) < 2 ^ 63
   \<and> client_calls (new_events \<lparr>gil_held = True, mem = (\<lambda>a. 0), trace = []\<rparr>
        (startFromJSON (\<lambda>gs m. Some m) \<lparr>str_data = 4096, str_size = 2\<rparr>
           \<lparr>gil_held = True, mem = (\<lambda>a. 0), trace = []\<rparr>))
     = [\<lparr>gs_p = 4096, gs_n = 2\<rparr>]
   \<and> go_bytes (\<lambda>a. 0) \<lparr>gs_p = 4096, gs_n = 2\<rparr> = [0, 0]"
  using startFromJSON_passes_json_once
    [where s = "\<lparr>gil_held = True, mem = (\<lambda>a. 0), trace = []\<rparr>"
       and json = "\<lparr>str_data = 4096, str_size = 2\<rparr>" and client = "\<lambda>gs m. Some m"]
  by (simp add: make_GoString_def string_bytes_def bytes_at_def upt_rec)

subsection \<open>C2: the lock is not held during the call\<close>

text \<open>
  Claim C2. When a thread that holds the interpreter lock calls \<open>startFromJSON\<close>, the
  lock is released before the client is entered (the first thing the binding does), it is
  not held at the entry into nor at the return from the client, and it is taken again only
  after the client has returned: up to the first acquisition the thread has released the
  lock, called the client and seen it return. After the return of the client the lock is
  taken again: the call logs exactly a release, the entry into the client, its return, an
  acquisition, a release and a last acquisition, and \<open>startFromJSON\<close> returns with the
  lock held. When the client never returns, the thread stays inside the call without the
  lock, and nothing has been acquired.
\<close>

theorem startFromJSON_releases_gil_for_call:
  assumes "gil_held s"
  shows "(case startFromJSON client json s of
            Inr s' \<Rightarrow>
              gil_at_client (gil_held s) (new_events s (Inr s')) = [False, False]
              \<and> takeWhile (\<lambda>e. e \<noteq> GilAcquired) (new_events s (Inr s')) =
                  [GilReleased, ClientCall (make_GoString json), ClientReturn]
              \<and> new_events s (Inr s') =
                  [GilReleased, ClientCall (make_GoString json), ClientReturn,
                   GilAcquired, GilReleased, GilAcquired]
              \<and> last (new_events s (Inr s')) = GilAcquired
              \<and> gil_held s'
          | Inl (f, s') \<Rightarrow>
              f = NeverReturns \<and> \<not> gil_held s'
              \<and> new_events s (Inl (f, s')) = [GilReleased, ClientCall (make_GoString json)]
              \<and> gil_at_client (gil_held s) (new_events s (Inl (f, s'))) = [False])"
proof (cases "client (make_GoString json) (mem s)")
  case None
  have "startFromJSON client json s =
    Inl (NeverReturns,
        s\<lparr>gil_held := False, trace := trace s @ [GilReleased, ClientCall (make_GoString json)]\<rparr>)"
    using assms None by (rule startFromJSON_blocks)
  then show ?thesis
    by (simp add: new_events_def outcome_state_def)
next
  case (Some m)
  have "startFromJSON client json s =
    Inr (s\<lparr>gil_held := True, mem := m,
          trace := trace s @ [GilReleased, ClientCall (make_GoString json), ClientReturn,
                              GilAcquired, GilReleased, GilAcquired]\<rparr>)"
    using assms Some by (rule startFromJSON_returns)
  then show ?thesis
    by (simp add: new_events_def outcome_state_def)
qed

theorem startFromJSON_releases_gil_for_call_witness:
  "gil_held \<lparr>gil_held = True, mem = (\<lambda>a. 0), trace = [GilAcquired]\<rparr>
   \<and> startFromJSON (\<lambda>gs m. Some m) \<lparr>str_data = 4096, str_size = 2\<rparr>
         \<lparr>gil_held = True, mem = (\<lambda>a. 0), trace = [GilAcquired]\<rparr>
       = Inr \<lparr>gil_held = True, mem = (\<lambda>a. 0),
              trace = [GilAcquired, GilReleased, ClientCall \<lparr>gs_p = 4096, gs_n = 2\<rparr>,
                       ClientReturn, GilAcquired, GilReleased, GilAcquired]\<rparr>
   \<and> gil_at_client True
         (new_events \<lparr>gil_held = True, mem = (\<lambda>a. 0), trace = [GilAcquired]\<rparr>
            (Inr \<lparr>gil_held = True, mem = (\<lambda>a. 0),
              trace = [GilAcquired, GilReleased, ClientCall \<lparr>gs_p = 4096, gs_n = 2\<rparr>,
                       ClientReturn, GilAcquired, GilReleased, GilAcquired]\<rparr>))
       = [False, False]
   \<and> last (new_events \<lparr>gil_held = True, mem = (\<lambda>a. 0), trace = [GilAcquired]\<rparr>
            (Inr \<lparr>gil_held = True, mem = (\<lambda>a. 0),
              trace = [GilAcquired, GilReleased, ClientCall \<lparr>gs_p = 4096, gs_n = 2\<rparr>,
                       ClientReturn, GilAcquired, GilReleased, GilAcquired]\<rparr>))
       = GilAcquired
   \<and> startFromJSON (\<lambda>gs m. None) \<lparr>str_data = 4096, str_size = 2\<rparr>
         \<lparr>gil_held = True, mem = (\<lambda>a. 0), trace = [GilAcquired]\<rparr>
       = Inl (NeverReturns,
              \<lparr>gil_held = False, mem = (\<lambda>a. 0),
               trace = [GilAcquired, GilReleased, ClientCall \<lparr>gs_p = 4096, gs_n = 2\<rparr>]\<rparr>)
   \<and> gil_at_client True
         (new_events \<lparr>gil_held = True, mem = (\<lambda>a. 0), trace = [GilAcquired]\<rparr>
            (Inl (NeverReturns,
              \<lparr>gil_held = False, mem = (\<lambda>a. 0),
               trace = [GilAcquired, GilReleased, ClientCall \<lparr>gs_p = 4096, gs_n = 2\<rparr>]\<rparr>)))
       = [False]"
proof -
  have returns: "startFromJSON (\<lambda>gs m. Some m) \<lparr>str_data = 4096, str_size = 2\<rparr>
         \<lparr>gil_held = True, mem = (\<lambda>a. 0), trace = [GilAcquired]\<rparr>
       = Inr \<lparr>gil_held = True, mem = (\<lambda>a. 0),
              trace = [GilAcquired, GilReleased, ClientCall \<lparr>gs_p = 4096, gs_n = 2\<rparr>,
                       ClientReturn, GilAcquired, GilReleased, GilAcquired]\<rparr>"
    by (simp add: startFromJSON_def gil_scoped_release_ctor_def PyEval_SaveThread_def
        and_then_def call_startClientFromJSON_def Let_def gil_scoped_acquire_ctor_def
        PyEval_RestoreThread_def gil_scoped_acquire_dtor_def gil_scoped_release_dtor_def
        make_GoString_def)
  have blocks: "startFromJSON (\<lambda>gs m. None) \<lparr>str_data = 4096, str_size = 2\<rparr>
         \<lparr>gil_held = True, mem = (\<lambda>a. 0), trace = [GilAcquired]\<rparr>
       = Inl (NeverReturns,
              \<lparr>gil_held = False, mem = (\<lambda>a. 0),
               trace = [GilAcquired, GilReleased, ClientCall \<lparr>gs_p = 4096, gs_n = 2\<rparr>]\<rparr>)"
    by (simp add: startFromJSON_def gil_scoped_release_ctor_def PyEval_SaveThread_def
        and_then_def call_startClientFromJSON_def Let_def make_GoString_def)
  from startFromJSON_releases_gil_for_call
    [where s = "\<lparr>gil_held = True, mem = (\<lambda>a. 0), trace = [GilAcquired]\<rparr>"
       and json = "\<lparr>str_data = 4096, str_size = 2\<rparr>" and client = "\<lambda>gs m. Some m"]
    returns
  have first: "gil_at_client True
         (new_events \<lparr>gil_held = True, mem = (\<lambda>a. 0), trace = [GilAcquired]\<rparr>
            (Inr \<lparr>gil_held = True, mem = (\<lambda>a. 0),
              trace = [GilAcquired, GilReleased, ClientCall \<lparr>gs_p = 4096, gs_n = 2\<rparr>,
                       ClientReturn, GilAcquired, GilReleased, GilAcquired]\<rparr>))
       = [False, False]
   \<and> last (new_events \<lparr>gil_held = True, mem = (\<lambda>a. 0), trace = [GilAcquired]\<rparr>
            (Inr \<lparr>gil_held = True, mem = (\<lambda>a. 0),
              trace = [GilAcquired, GilReleased, ClientCall \<lparr>gs_p = 4096, gs_n = 2\<rparr>,
                       ClientReturn, GilAcquired, GilReleased, GilAcquired]\<rparr>))
       = GilAcquired"
    by simp
  from startFromJSON_releases_gil_for_call
    [where s = "\<lparr>gil_held = True, mem = (\<lambda>a. 0), trace = [GilAcquired]\<rparr>"
       and json = "\<lparr>str_data = 4096, str_size = 2\<rparr>" and client = "\<lambda>gs m. None"]
    blocks
  have second: "gil_at_client True
         (new_events \<lparr>gil_held = True, mem = (\<lambda>a. 0), trace = [GilAcquired]\<rparr>
            (Inl (NeverReturns,
              \<lparr>gil_held = False, mem = (\<lambda>a. 0),
               trace = [GilAcquired, GilReleased, ClientCall \<lparr>gs_p = 4096, gs_n = 2\<rparr>]\<rparr>)))
       = [False]"
    by simp
  from returns blocks first second show ?thesis by simp
qed

subsection \<open>C10: the lock operations are balanced\<close>

text \<open>
  Claim C10. Whenever \<open>startFromJSON\<close> returns, the calling thread held the interpreter
  lock on entry and holds it on return, and the binding has acquired the lock exactly as
  often as it has released it: the release by the constructor of the outer guard and the
  release by the destructor of the inner guard are matched by the acquisition in the
  constructor of the inner guard and the acquisition in the destructor of the outer one.
\<close>

theorem startFromJSON_gil_balanced:
  assumes "startFromJSON client json s = Inr s'"
  shows "gil_held s \<and> gil_held s' = gil_held s
       \<and> length (filter (\<lambda>e. e = GilAcquired) (new_events s (Inr s'))) =
         length (filter (\<lambda>e. e = GilReleased) (new_events s (Inr s')))
       \<and> length (filter (\<lambda>e. e = GilReleased) (new_events s (Inr s'))) = 2"
proof -
  from assms obtain m where held: "gil_held s"
    and ret: "client (make_GoString json) (mem s) = Some m"
    by (rule startFromJSON_Inr_cases)
  have "startFromJSON client json s =
    Inr (s\<lparr>gil_held := True, mem := m,
          trace := trace s @ [GilReleased, ClientCall (make_GoString json), ClientReturn,
                              GilAcquired, GilReleased, GilAcquired]\<rparr>)"
    using held ret by (rule startFromJSON_returns)
  with assms have "s' = s\<lparr>gil_held := True, mem := m,
          trace := trace s @ [GilReleased, ClientCall (make_GoString json), ClientReturn,
                              GilAcquired, GilReleased, GilAcquired]\<rparr>"
    by simp
  with held show ?thesis
    by (simp add: new_events_def outcome_state_def)
qed

theorem startFromJSON_gil_balanced_witness:
  "startFromJSON (\<lambda>gs m. Some m) \<lparr>str_data = 4096, str_size = 2\<rparr>
       \<lparr>gil_held = True, mem = (\<lambda>a. 0), trace = []\<rparr>
     = Inr \<lparr>gil_held = True, mem = (\<lambda>a. 0),
            trace = [GilReleased, ClientCall \<lparr>gs_p = 4096, gs_n = 2\<rparr>, ClientReturn,
                     GilAcquired, GilReleased, GilAcquired]\<rparr>
   \<and> gil_held \<lparr>gil_held = True, mem = (\<lambda>a. 0),
            trace = [GilReleased, ClientCall \<lparr>gs_p = 4096, gs_n = 2\<rparr>, ClientReturn,
                     GilAcquired, GilReleased, GilAcquired]\<rparr>"
proof -
  have run: "startFromJSON (\<lambda>gs m. Some m) \<lparr>str_data = 4096, str_size = 2\<rparr>
       \<lparr>gil_held = True, mem = (\<lambda>a. 0), trace = []\<rparr>
     = Inr \<lparr>gil_held = True, mem = (\<lambda>a. 0),
            trace = [GilReleased, ClientCall \<lparr>gs_p = 4096, gs_n = 2\<rparr>, ClientReturn,
                     GilAcquired, GilReleased, GilAcquired]\<rparr>"
    by (simp add: startFromJSON_def gil_scoped_release_ctor_def PyEval_SaveThread_def
        and_then_def call_startClientFromJSON_def Let_def gil_scoped_acquire_ctor_def
        PyEval_RestoreThread_def gil_scoped_acquire_dtor_def gil_scoped_release_dtor_def
        make_GoString_def)
  from startFromJSON_gil_balanced [OF run] run show ?thesis by simp
qed

subsection \<open>C9: the module\<close>

text \<open>
  Claim C9. The module is named \<open>hysteria2\<close>; it binds exactly one function,
  \<open>startFromJSON\<close>, whose only parameter is named \<open>json\<close> and is a string; and its
  attribute \<open>__version__\<close> is the string \<open>2.7.0\<close>.
\<close>

theorem hysteria2_module_contents:
  "mod_name hysteria2 = ''hysteria2''
   \<and> map fn_name (mod_functions hysteria2) = [''startFromJSON'']
   \<and> map fn_args (mod_functions hysteria2) = [[\<lparr>arg_name = ''json'', arg_type = StdString\<rparr>]]
   \<and> map_of (mod_attrs hysteria2) ''__version__'' = Some ''2.7.0''"
  by (simp add: hysteria2_def PYBIND11_MODULE_def hysteria2_body_def module_def_def
      module_set_attr_def)


section \<open>The invariant holds in every reachable state\<close>


lemma attempt_once_transport_failure:
  "attempt_once cfg (Inl e) c =
     (Inl e, c\<lparr>next_session_id := Suc (next_session_id c),
               events := events c @ [(next_session_id c, Connecting), (next_session_id c, Failed)]\<rparr>)"
  by (simp add: attempt_once_def emit_def Let_def)

lemma attempt_once_reject:
  "conn (auth_secret cfg) = Reject reason \<Longrightarrow>
   attempt_once cfg (Inr conn) c =
     (Inl (AuthError reason),
      c\<lparr>next_session_id := Suc (next_session_id c),
        events := events c @ [(next_session_id c, Connecting), (next_session_id c, Authenticating),
                              (next_session_id c, Failed)]\<rparr>)"
  by (simp add: attempt_once_def emit_def Let_def authenticate_def)

lemma attempt_once_accept:
  "conn (auth_secret cfg) = Accept caps \<Longrightarrow>
   attempt_once cfg (Inr conn) c =
     (Inr \<lparr>session_id = next_session_id c, capabilities = caps, health = Active,
           congestion = initial_congestion cfg\<rparr>,
      c\<lparr>current := Some \<lparr>session_id = next_session_id c, capabilities = caps, health = Active,
           congestion = initial_congestion cfg\<rparr>,
        next_session_id := Suc (next_session_id c),
        events := events c @ [(next_session_id c, Connecting), (next_session_id c, Authenticating),
                              (next_session_id c, Active)]\<rparr>)"
  by (simp add: attempt_once_def emit_def Let_def authenticate_def)

lemma attempt_once_cases:
  obtains (failed) e evs where
      "attempt_once cfg a c =
         (Inl e, c\<lparr>next_session_id := Suc (next_session_id c), events := events c @ evs\<rparr>)"
      "\<forall>ev \<in> set evs. fst ev = next_session_id c \<and> snd ev \<noteq> Active"
  | (published) caps where
      "attempt_once cfg a c =
         (Inr \<lparr>session_id = next_session_id c, capabilities = caps, health = Active,
               congestion = initial_congestion cfg\<rparr>,
          c\<lparr>current := Some \<lparr>session_id = next_session_id c, capabilities = caps,
                               health = Active, congestion = initial_congestion cfg\<rparr>,
            next_session_id := Suc (next_session_id c),
            events := events c @ [(next_session_id c, Connecting),
                                  (next_session_id c, Authenticating),
                                  (next_session_id c, Active)]\<rparr>)"
proof (cases a)
  case (Inl e)
  show ?thesis
    by (rule failed [of e "[(next_session_id c, Connecting), (next_session_id c, Failed)]"])
       (simp_all add: Inl attempt_once_transport_failure)
next
  case (Inr conn)
  show ?thesis
  proof (cases "conn (auth_secret cfg)")
    case (Accept caps)
    show ?thesis
      by (rule published [of caps]) (simp add: Inr Accept attempt_once_def emit_def Let_def authenticate_def)
  next
    case (Reject reason)
    show ?thesis
      by (rule failed [of "AuthError reason"
            "[(next_session_id c, Connecting), (next_session_id c, Authenticating),
              (next_session_id c, Failed)]"])
         (simp_all add: Inr Reject attempt_once_def emit_def Let_def authenticate_def)
  qed
qed

lemma core_inv_initial: "core_inv (initial net)"
  by (simp add: core_inv_def initial_def)

lemma core_inv_network: "core_inv (c\<lparr>network := net\<rparr>) = core_inv c"
  by (simp add: core_inv_def authentications_def)

lemma core_inv_idle:
  "core_inv c \<Longrightarrow> current c = None \<Longrightarrow> streams c = [] \<and> flows c = []"
  by (cases "streams c"; cases "flows c") (auto simp add: core_inv_def)

lemma authentications_fresh:
  "\<forall>e \<in> set (events c). fst e < n \<Longrightarrow> length (filter (\<lambda>e. e = (n, Active)) (events c)) = 0"
  by (auto simp add: filter_empty_conv)

text \<open>What a failed attempt leaves: nothing but a new id and events without a publication.\<close>

lemma core_inv_failed_attempt:
  assumes "core_inv c" and "current c = None"
      and "\<forall>ev \<in> set evs. fst ev = next_session_id c \<and> snd ev \<noteq> Active"
  shows "core_inv (c\<lparr>next_session_id := Suc (next_session_id c), events := events c @ evs\<rparr>)"
  using assms core_inv_idle [OF assms(1,2)]
  by (auto simp add: core_inv_def authentications_def less_Suc_eq)

lemma core_inv_published:
  assumes "core_inv c" and "current c = None"
  shows "core_inv (c\<lparr>current := Some \<lparr>session_id = next_session_id c, capabilities = caps,
                               health = Active, congestion = initial_congestion cfg\<rparr>,
            next_session_id := Suc (next_session_id c),
            events := events c @ [(next_session_id c, Connecting),
                                  (next_session_id c, Authenticating),
                                  (next_session_id c, Active)]\<rparr>)"
proof -
  have fresh: "length (filter (\<lambda>e. e = (next_session_id c, Active)) (events c)) = 0"
    using assms(1) by (intro authentications_fresh) (simp add: core_inv_def)
  show ?thesis
    using assms core_inv_idle [OF assms] fresh
    by (auto simp add: core_inv_def authentications_def less_Suc_eq)
qed

lemma established_network:
  "established cfg c (r, c') \<Longrightarrow> established cfg c (r, c'\<lparr>network := net\<rparr>)"
  by (simp add: established_def core_inv_network split: sum.splits)

lemma established_trans:
  assumes "established cfg c1 r" 
      and "streams c1 = streams c" "flows c1 = flows c"
      and "next_stream_id c1 = next_stream_id c" "next_flow_id c1 = next_flow_id c"
      and "next_session_id c \<le> next_session_id c1"
  shows "established cfg c r"
  using assms by (auto simp add: established_def split: sum.splits)

lemma establish_established:
  "core_inv c \<Longrightarrow> current c = None \<Longrightarrow> established cfg c (establish cfg k net c)"
proof (induction net arbitrary: k c)
  case Nil
  then show ?case by (simp add: established_def core_inv_network)
next
  case (Cons a net)
  show ?case
  proof (cases rule: attempt_once_cases [of cfg a c])
    case (failed e evs)
    let ?c1 = "c\<lparr>next_session_id := Suc (next_session_id c), events := events c @ evs\<rparr>"
    have inv1: "core_inv ?c1"
      using Cons.prems failed(2) by (rule core_inv_failed_attempt)
    have idle1: "current ?c1 = None"
      using Cons.prems(2) by simp
    have stop: "established cfg c (Inl e, ?c1\<lparr>network := net\<rparr>)"
      using inv1 idle1 by (simp add: established_def core_inv_network)
    show ?thesis
    proof (cases "retryable e")
      case False
      with failed(1) stop show ?thesis by simp
    next
      case True
      show ?thesis
      proof (cases k)
        case 0
        with True failed(1) stop show ?thesis by simp
      next
        case (Suc k')
        have "established cfg ?c1 (establish cfg k' net ?c1)"
          using inv1 idle1 by (rule Cons.IH)
        then have "established cfg c (establish cfg k' net ?c1)"
          by (rule established_trans) simp_all
        with True failed(1) Suc show ?thesis by simp
      qed
    qed
  next
    case (published caps)
    have "core_inv (snd (attempt_once cfg a c))"
      unfolding published using Cons.prems by (simp add: core_inv_published)
    with published show ?thesis
      by (simp add: established_def core_inv_network)
  qed
qed


lemma acquireSession_current:
  "current c = Some s \<Longrightarrow> acquireSession cfg c = (Inr s, c)"
  by (simp add: acquireSession_def)

lemma acquireSession_idle:
  "current c = None \<Longrightarrow> acquireSession cfg c = establish cfg (max_retries cfg) (network c) c"
  by (simp add: acquireSession_def)

text \<open>The same for the acquisition, whatever the current Session, but for its congestion state.\<close>

lemma acquireSession_acquired:
  assumes "core_inv c"
  shows "core_inv (snd (acquireSession cfg c))
       \<and> streams (snd (acquireSession cfg c)) = streams c
       \<and> flows (snd (acquireSession cfg c)) = flows c
       \<and> next_stream_id (snd (acquireSession cfg c)) = next_stream_id c
       \<and> next_flow_id (snd (acquireSession cfg c)) = next_flow_id c
       \<and> (case fst (acquireSession cfg c) of
             Inl e \<Rightarrow> current (snd (acquireSession cfg c)) = None
           | Inr s \<Rightarrow> current (snd (acquireSession cfg c)) = Some s)"
proof (cases "current c")
  case None
  have "established cfg c (establish cfg (max_retries cfg) (network c) c)"
    using assms None by (rule establish_established)
  then show ?thesis
    unfolding acquireSession_idle [OF None]
    by (auto simp add: established_def split: sum.splits)
next
  case (Some s)
  show ?thesis
    unfolding acquireSession_current [OF Some] using assms Some by simp
qed

lemma openStream_cases:
  obtains (failed) e where
      "fst (acquireSession cfg c) = Inl e"
      "openStream cfg dest c = (Inl e, snd (acquireSession cfg c))"
  | (opened) s where
      "fst (acquireSession cfg c) = Inr s"
      "openStream cfg dest c =
         (Inr \<lparr>stream_id = next_stream_id (snd (acquireSession cfg c)),
               stream_session = session_id s, destination = dest,
               bytes_sent = 0, bytes_received = 0\<rparr>,
          (snd (acquireSession cfg c))
            \<lparr>streams := streams (snd (acquireSession cfg c)) @
                 [\<lparr>stream_id = next_stream_id (snd (acquireSession cfg c)),
                   stream_session = session_id s, destination = dest,
                   bytes_sent = 0, bytes_received = 0\<rparr>],
             next_stream_id := Suc (next_stream_id (snd (acquireSession cfg c)))\<rparr>)"
  by (cases "acquireSession cfg c"; cases "fst (acquireSession cfg c)")
     (auto simp add: openStream_def Let_def)

lemma openUDPFlow_cases:
  obtains (failed) e where
      "fst (acquireSession cfg c) = Inl e"
      "openUDPFlow cfg addrs c = (Inl e, snd (acquireSession cfg c))"
  | (opened) s where
      "fst (acquireSession cfg c) = Inr s"
      "openUDPFlow cfg addrs c =
         (Inr \<lparr>flow_id = next_flow_id (snd (acquireSession cfg c)),
               flow_session = session_id s, flow_addresses = addrs\<rparr>,
          (snd (acquireSession cfg c))
            \<lparr>flows := flows (snd (acquireSession cfg c)) @
                 [\<lparr>flow_id = next_flow_id (snd (acquireSession cfg c)),
                   flow_session = session_id s, flow_addresses = addrs\<rparr>],
             next_flow_id := Suc (next_flow_id (snd (acquireSession cfg c)))\<rparr>)"
  by (cases "acquireSession cfg c"; cases "fst (acquireSession cfg c)")
     (auto simp add: openUDPFlow_def Let_def)

lemma core_inv_add_stream:
  assumes "core_inv c" and "current c = Some s"
  shows "core_inv (c\<lparr>streams := streams c @
                 [\<lparr>stream_id = next_stream_id c, stream_session = session_id s,
                   destination = dest, bytes_sent = 0, bytes_received = 0\<rparr>],
             next_stream_id := Suc (next_stream_id c)\<rparr>)"
  using assms by (auto simp add: core_inv_def authentications_def less_Suc_eq)

lemma core_inv_add_flow:
  assumes "core_inv c" and "current c = Some s"
  shows "core_inv (c\<lparr>flows := flows c @
                 [\<lparr>flow_id = next_flow_id c, flow_session = session_id s,
                   flow_addresses = addrs\<rparr>],
             next_flow_id := Suc (next_flow_id c)\<rparr>)"
  using assms by (auto simp add: core_inv_def authentications_def less_Suc_eq)

lemma core_inv_openStream:
  assumes "core_inv c"
  shows "core_inv (snd (openStream cfg dest c))"
proof (cases rule: openStream_cases [of cfg c dest])
  case (failed e)
  with acquireSession_acquired [OF assms, of cfg] show ?thesis by simp
next
  case (opened s)
  from acquireSession_acquired [OF assms, of cfg] opened(1)
  have "core_inv (snd (acquireSession cfg c))" and "current (snd (acquireSession cfg c)) = Some s"
    by simp_all
  then show ?thesis
    unfolding opened(2) snd_conv by (rule core_inv_add_stream)
qed

lemma core_inv_openUDPFlow:
  assumes "core_inv c"
  shows "core_inv (snd (openUDPFlow cfg addrs c))"
proof (cases rule: openUDPFlow_cases [of cfg c addrs])
  case (failed e)
  with acquireSession_acquired [OF assms, of cfg] show ?thesis by simp
next
  case (opened s)
  from acquireSession_acquired [OF assms, of cfg] opened(1)
  have "core_inv (snd (acquireSession cfg c))" and "current (snd (acquireSession cfg c)) = Some s"
    by simp_all
  then show ?thesis
    unfolding opened(2) snd_conv by (rule core_inv_add_flow)
qed

lemma core_inv_close: "core_inv c \<Longrightarrow> core_inv (close h c)"
  by (cases h) (auto simp add: core_inv_def authentications_def distinct_map_filter)

lemma core_inv_onSessionFailure: "core_inv c \<Longrightarrow> core_inv (onSessionFailure c)"
  by (cases "current c")
     (auto simp add: onSessionFailure_def emit_def core_inv_def authentications_def
        distinct_map_filter)

lemma relay_ids:
  "map stream_id (streams (relay i sent received c)) = map stream_id (streams c)"
  by (simp add: relay_def comp_def)

lemma core_inv_relay: "core_inv c \<Longrightarrow> core_inv (relay i sent received c)"
  unfolding core_inv_def relay_ids
  by (auto simp add: relay_def authentications_def)

lemma core_inv_on_current_congestion:
  "core_inv c \<Longrightarrow> core_inv (on_current_congestion f c)"
  by (cases "current c")
     (auto simp add: on_current_congestion_def core_inv_def authentications_def)

lemma core_inv_step: "core_inv c \<Longrightarrow> core_inv (step cfg c cmd)"
  by (cases cmd)
     (simp_all add: core_inv_openStream core_inv_openUDPFlow core_inv_close streamFailure_def
        core_inv_onSessionFailure core_inv_relay core_inv_on_current_congestion)

lemma core_inv_run: "core_inv c \<Longrightarrow> core_inv (run cfg c cmds)"
  unfolding run_def by (induction cmds arbitrary: c) (simp_all add: core_inv_step)

lemma core_inv_reachable: "core_inv (run cfg (initial net) cmds)"
  by (rule core_inv_run) (rule core_inv_initial)


subsection \<open>The current Session has passed authentication\<close>

lemma auth_inv_initial: "auth_inv cfg net (initial net)"
  by (simp add: auth_inv_def initial_def)

lemma drop_eq_Cons:
  assumes "drop n xs = y # ys"
  shows "n < length xs" and "xs ! n = y" and "drop (Suc n) xs = ys"
proof -
  show n: "n < length xs"
    using assms by (cases "n < length xs") simp_all
  from n have "drop n xs = xs ! n # drop (Suc n) xs"
    by (rule Cons_nth_drop_Suc [symmetric])
  with assms show "xs ! n = y" and "drop (Suc n) xs = ys"
    by simp_all
qed

lemma establish_auth_inv:
  assumes "current c = None" and "nw = drop (next_session_id c) net"
  shows "auth_inv cfg net (snd (establish cfg k nw c))"
  using assms
proof (induction nw arbitrary: k c)
  case Nil
  then show ?case by (simp add: auth_inv_def)
next
  case (Cons a nw)
  from Cons.prems(2) have here: "next_session_id c < length net"
    "net ! next_session_id c = a" and rest: "nw = drop (Suc (next_session_id c)) net"
    using drop_eq_Cons [of "next_session_id c" net a nw] by simp_all
  have stop: "auth_inv cfg net
      (c\<lparr>next_session_id := Suc (next_session_id c), events := events c @ evs, network := nw\<rparr>)"
    for evs
    using Cons.prems(1) rest by (simp add: auth_inv_def)
  have again: "auth_inv cfg net (snd (establish cfg k' nw
      (c\<lparr>next_session_id := Suc (next_session_id c), events := events c @ evs\<rparr>)))"
    for evs k'
    using Cons.prems(1) rest by (intro Cons.IH) simp_all
  show ?case
  proof (cases a)
    case (Inl e)
    show ?thesis
      using stop again
      by (cases k) (simp_all add: Inl attempt_once_transport_failure)
  next
    case (Inr conn)
    show ?thesis
    proof (cases "conn (auth_secret cfg)")
      case (Reject reason)
      have "attempt_once cfg (Inr conn) c =
        (Inl (AuthError reason),
         c\<lparr>next_session_id := Suc (next_session_id c),
           events := events c @ [(next_session_id c, Connecting),
                                 (next_session_id c, Authenticating),
                                 (next_session_id c, Failed)]\<rparr>)"
        using Reject by (simp add: attempt_once_def emit_def Let_def authenticate_def)
      then show ?thesis
        using stop by (simp add: Inr)
    next
      case (Accept caps)
      have "attempt_once cfg (Inr conn) c =
        (Inr \<lparr>session_id = next_session_id c, capabilities = caps, health = Active,
              congestion = initial_congestion cfg\<rparr>,
         c\<lparr>current := Some \<lparr>session_id = next_session_id c, capabilities = caps,
                              health = Active, congestion = initial_congestion cfg\<rparr>,
           next_session_id := Suc (next_session_id c),
           events := events c @ [(next_session_id c, Connecting),
                                 (next_session_id c, Authenticating),
                                 (next_session_id c, Active)]\<rparr>)"
        using Accept by (simp add: attempt_once_def emit_def Let_def authenticate_def)
      moreover have "\<exists>before after.
          events c @ [(next_session_id c, Connecting), (next_session_id c, Authenticating),
                      (next_session_id c, Active)] =
          before @ [(next_session_id c, Connecting), (next_session_id c, Authenticating),
                    (next_session_id c, Active)] @ after"
        by (intro exI [of _ "events c"] exI [of _ "[]"]) simp
      ultimately show ?thesis
        using here rest Accept Inr
        by (simp add: auth_inv_def authenticate_def)
    qed
  qed
qed

lemma auth_inv_acquireSession:
  assumes "auth_inv cfg net c"
  shows "auth_inv cfg net (snd (acquireSession cfg c))"
proof (cases "current c")
  case None
  have "auth_inv cfg net (snd (establish cfg (max_retries cfg) (network c) c))"
    using None assms by (intro establish_auth_inv) (simp_all add: auth_inv_def)
  then show ?thesis
    by (simp add: acquireSession_idle [OF None])
next
  case (Some s)
  then show ?thesis
    using assms by (simp add: acquireSession_current)
qed

lemma auth_inv_openStream:
  assumes "auth_inv cfg net c"
  shows "auth_inv cfg net (snd (openStream cfg dest c))"
proof (cases rule: openStream_cases [of cfg c dest])
  case (failed e)
  with auth_inv_acquireSession [OF assms] show ?thesis by simp
next
  case (opened s)
  with auth_inv_acquireSession [OF assms] show ?thesis
    by (simp add: auth_inv_def)
qed

lemma auth_inv_openUDPFlow:
  assumes "auth_inv cfg net c"
  shows "auth_inv cfg net (snd (openUDPFlow cfg addrs c))"
proof (cases rule: openUDPFlow_cases [of cfg c addrs])
  case (failed e)
  with auth_inv_acquireSession [OF assms] show ?thesis by simp
next
  case (opened s)
  with auth_inv_acquireSession [OF assms] show ?thesis
    by (simp add: auth_inv_def)
qed

lemma auth_inv_close: "auth_inv cfg net c \<Longrightarrow> auth_inv cfg net (close h c)"
  by (cases h) (simp_all add: auth_inv_def)

lemma auth_inv_onSessionFailure:
  "auth_inv cfg net c \<Longrightarrow> auth_inv cfg net (onSessionFailure c)"
  by (cases "current c") (simp_all add: onSessionFailure_def emit_def auth_inv_def)

lemma auth_inv_relay: "auth_inv cfg net c \<Longrightarrow> auth_inv cfg net (relay i sent received c)"
  by (simp add: relay_def auth_inv_def)

lemma auth_inv_on_current_congestion:
  "auth_inv cfg net c \<Longrightarrow> auth_inv cfg net (on_current_congestion f c)"
  by (cases "current c") (auto simp add: on_current_congestion_def auth_inv_def)

lemma auth_inv_step: "auth_inv cfg net c \<Longrightarrow> auth_inv cfg net (step cfg c cmd)"
  by (cases cmd)
     (simp_all add: auth_inv_openStream auth_inv_openUDPFlow auth_inv_close streamFailure_def
        auth_inv_onSessionFailure auth_inv_relay auth_inv_on_current_congestion)

lemma auth_inv_run: "auth_inv cfg net c \<Longrightarrow> auth_inv cfg net (run cfg c cmds)"
  unfolding run_def by (induction cmds arbitrary: c) (simp_all add: auth_inv_step)

lemma auth_inv_reachable: "auth_inv cfg net (run cfg (initial net) cmds)"
  by (rule auth_inv_run) (rule auth_inv_initial)

subsection \<open>Later states continue earlier ones\<close>

lemma continues_refl: "continues c c"
  by (auto simp add: continues_def)

lemma continues_trans:
  assumes "continues a b" and "continues b c"
  shows "continues a c"
  unfolding continues_def
proof (intro conjI ballI impI)
  show "next_stream_id a \<le> next_stream_id c" "next_flow_id a \<le> next_flow_id c"
    using assms by (auto simp add: continues_def)
next
  fix h'' assume h'': "h'' \<in> set (streams c)" "stream_id h'' < next_stream_id a"
  with assms have "stream_id h'' < next_stream_id b"
    by (auto simp add: continues_def)
  with assms(2) h''(1) obtain h' where
    "h' \<in> set (streams b)" "stream_id h' = stream_id h''" "stream_session h' = stream_session h''"
    unfolding continues_def by blast
  with assms(1) h''(2) show
    "\<exists>h \<in> set (streams a). stream_id h = stream_id h'' \<and> stream_session h = stream_session h''"
    unfolding continues_def by metis
next
  fix f'' assume f'': "f'' \<in> set (flows c)" "flow_id f'' < next_flow_id a"
  with assms have "flow_id f'' < next_flow_id b"
    by (auto simp add: continues_def)
  with assms(2) f''(1) obtain f' where
    "f' \<in> set (flows b)" "flow_id f' = flow_id f''" "flow_session f' = flow_session f''"
    unfolding continues_def by blast
  with assms(1) f''(2) show
    "\<exists>f \<in> set (flows a). flow_id f = flow_id f'' \<and> flow_session f = flow_session f''"
    unfolding continues_def by metis
qed

lemma continues_acquireSession:
  "core_inv c \<Longrightarrow> continues c (snd (acquireSession cfg c))"
  using acquireSession_acquired [of c cfg] by (auto simp add: continues_def)

lemma continues_openStream:
  assumes "core_inv c"
  shows "continues c (snd (openStream cfg dest c))"
proof (cases rule: openStream_cases [of cfg c dest])
  case (failed e)
  with continues_acquireSession [OF assms, of cfg] show ?thesis by simp
next
  case (opened s)
  show ?thesis
    unfolding opened(2) using acquireSession_acquired [OF assms, of cfg]
    by (auto simp add: continues_def)
qed

lemma continues_openUDPFlow:
  assumes "core_inv c"
  shows "continues c (snd (openUDPFlow cfg addrs c))"
proof (cases rule: openUDPFlow_cases [of cfg c addrs])
  case (failed e)
  with continues_acquireSession [OF assms, of cfg] show ?thesis by simp
next
  case (opened s)
  show ?thesis
    unfolding opened(2) using acquireSession_acquired [OF assms, of cfg]
    by (auto simp add: continues_def)
qed

lemma continues_close: "continues c (close h c)"
  by (cases h) (auto simp add: continues_def)

lemma continues_onSessionFailure: "continues c (onSessionFailure c)"
  by (cases "current c") (auto simp add: onSessionFailure_def emit_def continues_def)

lemma continues_relay: "continues c (relay i sent received c)"
  by (auto simp add: relay_def continues_def)

lemma continues_on_current_congestion: "continues c (on_current_congestion f c)"
  by (cases "current c") (auto simp add: on_current_congestion_def continues_def)

lemma continues_step: "core_inv c \<Longrightarrow> continues c (step cfg c cmd)"
  by (cases cmd)
     (simp_all add: continues_openStream continues_openUDPFlow continues_close streamFailure_def
        continues_onSessionFailure continues_relay continues_on_current_congestion)

lemma continues_run: "core_inv c \<Longrightarrow> continues c (run cfg c cmds)"
proof (induction cmds arbitrary: c)
  case Nil
  show ?case by (simp add: run_def continues_refl)
next
  case (Cons cmd cmds)
  have "continues c (step cfg c cmd)"
    using Cons.prems by (rule continues_step)
  moreover have "continues (step cfg c cmd) (run cfg (step cfg c cmd) cmds)"
    using Cons.prems by (intro Cons.IH core_inv_step)
  ultimately have "continues c (run cfg (step cfg c cmd) cmds)"
    by (rule continues_trans)
  then show ?case by (simp add: run_def)
qed

lemma same_id_same_stream:
  assumes "distinct (map stream_id hs)" and "h \<in> set hs" and "g \<in> set hs"
      and "stream_id h = stream_id g"
  shows "h = g"
  using assms by (meson distinct_map inj_onD)

lemma same_id_same_flow:
  assumes "distinct (map flow_id fs)" and "f \<in> set fs" and "g \<in> set fs"
      and "flow_id f = flow_id g"
  shows "f = g"
  using assms by (meson distinct_map inj_onD)

section \<open>Properties of the client core\<close>

subsection \<open>C4: a rejection is not retried\<close>

lemma establish_rejected:
  assumes "\<forall>e \<in> set errs. retryable e"
      and "length errs \<le> k"
      and "conn (auth_secret cfg) = Reject reason"
  shows "fst (establish cfg k (map Inl errs @ Inr conn # rest) c) = Inl (AuthError reason)
       \<and> network (snd (establish cfg k (map Inl errs @ Inr conn # rest) c)) = rest
       \<and> current (snd (establish cfg k (map Inl errs @ Inr conn # rest) c)) = current c
       \<and> attempts_made (snd (establish cfg k (map Inl errs @ Inr conn # rest) c)) =
           attempts_made c + length errs + 1
       \<and> last (events (snd (establish cfg k (map Inl errs @ Inr conn # rest) c))) =
           (next_session_id c + length errs, Failed)"
  using assms
proof (induction errs arbitrary: k c)
  case Nil
  then show ?case
    by (simp add: attempt_once_reject attempts_made_def)
next
  case (Cons e errs)
  from Cons.prems obtain k' where k: "k = Suc k'" and le: "length errs \<le> k'"
    by (cases k) auto
  from Cons.prems have re: "retryable e" and rest: "\<forall>e \<in> set errs. retryable e"
    by auto
  let ?c1 = "c\<lparr>next_session_id := Suc (next_session_id c),
               events := events c @ [(next_session_id c, Connecting), (next_session_id c, Failed)]\<rparr>"
  have unfold: "establish cfg k (map Inl (e # errs) @ Inr conn # rest) c =
        establish cfg k' (map Inl errs @ Inr conn # rest) ?c1"
    using re k by (simp add: attempt_once_transport_failure)
  have am: "attempts_made ?c1 = attempts_made c + 1"
    by (simp add: attempts_made_def)
  from Cons.IH [OF rest le Cons.prems(3), of ?c1] show ?case
    unfolding unfold am by simp
qed

text \<open>
  Claim C4. Whenever the server rejects the authentication, on the first connection that
  the retry loop gets through (after any number of retryable transport failures within
  the retry bound), the acquisition ends with \<open>AuthError\<close>, which is not retryable; the
  rejected attempt is the last one made: nothing of what the network still holds is
  tried, however many retries are left, so no reconnect attempt follows the rejection
  (hence at most one); no Session is current afterwards, and a caller of \<open>openStream\<close>
  gets the \<open>AuthError\<close>.
\<close>

theorem auth_rejection_not_retried:
  assumes "current c = None"
      and "network c = map Inl errs @ Inr conn # rest"
      and "\<forall>e \<in> set errs. retryable e"
      and "length errs \<le> max_retries cfg"
      and "conn (auth_secret cfg) = Reject reason"
  shows "fst (acquireSession cfg c) = Inl (AuthError reason)
       \<and> \<not> retryable (AuthError reason)
       \<and> network (snd (acquireSession cfg c)) = rest
       \<and> attempts_made (snd (acquireSession cfg c)) = attempts_made c + length errs + 1
       \<and> last (events (snd (acquireSession cfg c))) = (next_session_id c + length errs, Failed)
       \<and> current (snd (acquireSession cfg c)) = None
       \<and> fst (openStream cfg dest c) = Inl (AuthError reason)"
proof -
  have acq: "acquireSession cfg c =
      establish cfg (max_retries cfg) (map Inl errs @ Inr conn # rest) c"
    using assms(1,2) by (simp add: acquireSession_def)
  from establish_rejected
         [where errs = errs and k = "max_retries cfg" and conn = conn and cfg = cfg
            and reason = reason and rest = rest and c = c, OF assms(3,4,5)]
       assms(1)
  show ?thesis
    unfolding acq openStream_def acq
    by (simp add: split_beta split: sum.splits prod.splits)
qed

theorem auth_rejection_not_retried_witness:
  "current (initial [Inl ConnectError, Inr rejecting, Inr accepting]) = None
   \<and> retryable ConnectError
   \<and> length [ConnectError] \<le> max_retries example_config
   \<and> rejecting (auth_secret example_config) = Reject ''invalid credential''
   \<and> fst (acquireSession example_config (initial [Inl ConnectError, Inr rejecting, Inr accepting]))
       = Inl (AuthError ''invalid credential'')
   \<and> attempts_made
       (snd (acquireSession example_config (initial [Inl ConnectError, Inr rejecting, Inr accepting])))
       = 2
   \<and> length (network
       (snd (acquireSession example_config (initial [Inl ConnectError, Inr rejecting, Inr accepting]))))
       = 1"
  using auth_rejection_not_retried
    [where c = "initial [Inl ConnectError, Inr rejecting, Inr accepting]"
       and errs = "[ConnectError]" and conn = rejecting and rest = "[Inr accepting]"
       and cfg = example_config and reason = "''invalid credential''"]
  by (simp add: initial_def attempts_made_def example_config_def rejecting_def)

subsection \<open>C5: one authentication before any handle\<close>

text \<open>
  Claim C5. For every configuration, every network and every execution, a handle that
  \<open>openStream\<close> returns refers to the current Session, which is Active and has been
  published as Active exactly once by the time the handle is returned; the same holds of
  every handle that is open then. That Session has passed authentication: the attempt
  that created it gave a connection on which the server accepted the configured secret,
  \<open>authenticate\<close> returned on it the capabilities the Session carries, and the events the
  Session Manager has emitted when the handle is returned record, in this order, that the
  Session was Connecting, Authenticating and Active.
\<close>

theorem openStream_after_one_authentication:
  assumes "c = run cfg (initial net) cmds"
      and "openStream cfg dest c = (Inr h, c')"
  shows "authentications c' (stream_session h) = 1
       \<and> (\<exists>s. current c' = Some s \<and> session_id s = stream_session h \<and> health s = Active)
       \<and> h \<in> set (streams c')
       \<and> (\<forall>g \<in> set (streams c'). authentications c' (stream_session g) = 1)
       \<and> (\<exists>s conn. current c' = Some s \<and> session_id s = stream_session h
             \<and> stream_session h < length net
             \<and> net ! stream_session h = Inr conn
             \<and> conn (auth_secret cfg) = Accept (capabilities s)
             \<and> authenticate conn (auth_secret cfg) = Inr (capabilities s))
       \<and> (\<exists>before after. events c' =
             before @ [(stream_session h, Connecting), (stream_session h, Authenticating),
                       (stream_session h, Active)] @ after)"
proof -
  have inv: "core_inv c"
    unfolding assms(1) by (rule core_inv_reachable)
  have "core_inv (snd (openStream cfg dest c))"
    using inv by (rule core_inv_openStream)
  then have inv': "core_inv c'"
    by (simp add: assms(2))
  have "auth_inv cfg net c"
    unfolding assms(1) by (rule auth_inv_reachable)
  then have "auth_inv cfg net (snd (openStream cfg dest c))"
    by (rule auth_inv_openStream)
  then have auth': "auth_inv cfg net c'"
    by (simp add: assms(2))
  have mem: "h \<in> set (streams c')"
    using assms(2) by (cases rule: openStream_cases [of cfg c dest]) auto
  from inv' have all: "\<forall>g \<in> set (streams c'). authentications c' (stream_session g) = 1"
    unfolding core_inv_def by metis
  from inv' mem obtain s where cur: "current c' = Some s"
    and sid: "stream_session h = session_id s"
    unfolding core_inv_def by blast
  from inv' cur have active: "health s = Active"
    unfolding core_inv_def by blast
  from auth' cur have len: "session_id s < length net"
    unfolding auth_inv_def by blast
  from auth' cur obtain conn where conn: "net ! session_id s = Inr conn"
    "conn (auth_secret cfg) = Accept (capabilities s)"
    "authenticate conn (auth_secret cfg) = Inr (capabilities s)"
    unfolding auth_inv_def by blast
  from auth' cur obtain before after where ev: "events c' =
      before @ [(session_id s, Connecting), (session_id s, Authenticating),
                (session_id s, Active)] @ after"
    unfolding auth_inv_def by blast
  have one: "authentications c' (stream_session h) = 1"
    using all mem by blast
  have first: "\<exists>s. current c' = Some s \<and> session_id s = stream_session h \<and> health s = Active"
    using cur sid active by simp
  have accepted: "\<exists>s conn. current c' = Some s \<and> session_id s = stream_session h
             \<and> stream_session h < length net
             \<and> net ! stream_session h = Inr conn
             \<and> conn (auth_secret cfg) = Accept (capabilities s)
             \<and> authenticate conn (auth_secret cfg) = Inr (capabilities s)"
    using cur sid len conn by auto
  have logged: "\<exists>before after. events c' =
             before @ [(stream_session h, Connecting), (stream_session h, Authenticating),
                       (stream_session h, Active)] @ after"
    using ev sid by auto
  from one first mem all accepted logged show ?thesis
    by blast
qed

lemma example_run_two_streams:
  "run example_config (initial [Inl ConnectError, Inr accepting]) [OpenStream ''a:80''] =
     \<lparr>current = Some \<lparr>session_id = 1,
                       capabilities = \<lparr>udp_enabled = True, server_bandwidth = 0\<rparr>,
                       health = Active,
                       congestion = \<lparr>window = 10, rtt_estimate = 0, ack_count = 0,
                                     loss_count = 0\<rparr>\<rparr>,
      streams = [\<lparr>stream_id = 0, stream_session = 1, destination = ''a:80'',
                  bytes_sent = 0, bytes_received = 0\<rparr>],
      flows = [], next_session_id = 2, next_stream_id = 1, next_flow_id = 0,
      events = [(0, Connecting), (0, Failed), (1, Connecting), (1, Authenticating), (1, Active)],
      network = []\<rparr>"
  by (simp add: run_def openStream_def acquireSession_def attempt_once_def authenticate_def
      emit_def initial_def example_config_def accepting_def initial_congestion_def Let_def)

theorem openStream_after_one_authentication_witness:
  "fst (openStream example_config ''b:80''
          (run example_config (initial [Inl ConnectError, Inr accepting]) [OpenStream ''a:80'']))
     = Inr \<lparr>stream_id = 1, stream_session = 1, destination = ''b:80'',
            bytes_sent = 0, bytes_received = 0\<rparr>
   \<and> authentications
        (snd (openStream example_config ''b:80''
           (run example_config (initial [Inl ConnectError, Inr accepting]) [OpenStream ''a:80''])))
        1 = 1
   \<and> [Inl ConnectError, Inr accepting] ! 1 = Inr accepting
   \<and> authenticate accepting (auth_secret example_config) =
        Inr \<lparr>udp_enabled = True, server_bandwidth = 0\<rparr>
   \<and> (\<exists>s. current (snd (openStream example_config ''b:80''
           (run example_config (initial [Inl ConnectError, Inr accepting]) [OpenStream ''a:80''])))
          = Some s
        \<and> session_id s = 1
        \<and> authenticate accepting (auth_secret example_config) = Inr (capabilities s))"
proof -
  let ?c = "run example_config (initial [Inl ConnectError, Inr accepting]) [OpenStream ''a:80'']"
  let ?h = "\<lparr>stream_id = 1, stream_session = 1, destination = ''b:80'',
             bytes_sent = 0, bytes_received = 0\<rparr>"
  have opened: "fst (openStream example_config ''b:80'' ?c) = Inr ?h"
    unfolding example_run_two_streams
    by (simp add: openStream_def acquireSession_def Let_def)
  then have run: "openStream example_config ''b:80'' ?c =
      (Inr ?h, snd (openStream example_config ''b:80'' ?c))"
    by (simp add: prod_eq_iff)
  have server: "[Inl ConnectError, Inr accepting] ! 1 = Inr accepting"
    by simp
  have answer: "authenticate accepting (auth_secret example_config) =
        Inr \<lparr>udp_enabled = True, server_bandwidth = 0\<rparr>"
    by (simp add: authenticate_def accepting_def)
  from openStream_after_one_authentication
    [where c = ?c and cfg = example_config and net = "[Inl ConnectError, Inr accepting]"
       and cmds = "[OpenStream ''a:80'']" and dest = "''b:80''" and h = ?h
       and c' = "snd (openStream example_config ''b:80'' ?c)", OF refl run]
  have one: "authentications (snd (openStream example_config ''b:80'' ?c)) 1 = 1"
    and accepted: "\<exists>s conn. current (snd (openStream example_config ''b:80'' ?c)) = Some s
        \<and> session_id s = 1
        \<and> [Inl ConnectError, Inr accepting] ! 1 = Inr conn
        \<and> authenticate conn (auth_secret example_config) = Inr (capabilities s)"
    by auto
  from accepted have "\<exists>s. current (snd (openStream example_config ''b:80'' ?c)) = Some s
        \<and> session_id s = 1
        \<and> authenticate accepting (auth_secret example_config) = Inr (capabilities s)"
    by auto
  with opened one server answer show ?thesis
    by blast
qed

subsection \<open>C6: handles are never rebound\<close>

text \<open>
  Claim C6. In every reachable state \<open>c\<close>, every open StreamHandle and UDPFlow refers to
  the current Session. Along every execution that continues from \<open>c\<close> to a state \<open>c'\<close>,
  whatever is open in \<open>c'\<close> under the id of a handle or flow of \<open>c\<close> still refers to the
  Session it referred to in \<open>c\<close>; and when the current Session of \<open>c'\<close> is another one
  than that of \<open>c\<close>, every handle and flow of \<open>c'\<close> is new: none carries the id of a
  handle or flow of \<open>c\<close>.
\<close>

theorem handles_never_rebound:
  assumes "c = run cfg (initial net) cmds" and "c' = run cfg c later"
  shows "(\<forall>h \<in> set (streams c). \<exists>s. current c = Some s \<and> stream_session h = session_id s)
       \<and> (\<forall>f \<in> set (flows c). \<exists>s. current c = Some s \<and> flow_session f = session_id s)
       \<and> (\<forall>h \<in> set (streams c). \<forall>h' \<in> set (streams c').
             stream_id h' = stream_id h \<longrightarrow> stream_session h' = stream_session h)
       \<and> (\<forall>f \<in> set (flows c). \<forall>f' \<in> set (flows c').
             flow_id f' = flow_id f \<longrightarrow> flow_session f' = flow_session f)
       \<and> (\<forall>s s'. current c = Some s \<and> current c' = Some s' \<and> session_id s' \<noteq> session_id s \<longrightarrow>
             (\<forall>h' \<in> set (streams c'). \<forall>h \<in> set (streams c). stream_id h' \<noteq> stream_id h)
           \<and> (\<forall>f' \<in> set (flows c'). \<forall>f \<in> set (flows c). flow_id f' \<noteq> flow_id f))"
proof -
  have inv: "core_inv c"
    unfolding assms(1) by (rule core_inv_reachable)
  have inv': "core_inv c'"
    unfolding assms(2) using inv by (rule core_inv_run)
  have cont: "continues c c'"
    unfolding assms(2) using inv by (rule continues_run)
  have cur_s: "\<forall>h \<in> set (streams c). \<exists>s. current c = Some s \<and> stream_session h = session_id s"
    using inv unfolding core_inv_def by blast
  have cur_f: "\<forall>f \<in> set (flows c). \<exists>s. current c = Some s \<and> flow_session f = session_id s"
    using inv unfolding core_inv_def by blast
  have cur_s': "\<forall>h \<in> set (streams c'). \<exists>s. current c' = Some s \<and> stream_session h = session_id s"
    using inv' unfolding core_inv_def by blast
  have cur_f': "\<forall>f \<in> set (flows c'). \<exists>s. current c' = Some s \<and> flow_session f = session_id s"
    using inv' unfolding core_inv_def by blast
  have keep_s: "stream_session h' = stream_session h"
    if "h \<in> set (streams c)" "h' \<in> set (streams c')" "stream_id h' = stream_id h" for h h'
  proof -
    from inv that(1) have "stream_id h < next_stream_id c"
      unfolding core_inv_def by blast
    with cont that(2,3) obtain g where g: "g \<in> set (streams c)" "stream_id g = stream_id h'"
      "stream_session g = stream_session h'"
      unfolding continues_def by metis
    from inv have "distinct (map stream_id (streams c))"
      unfolding core_inv_def by blast
    from this g(1) that(1) have "g = h"
      by (rule same_id_same_stream) (simp add: g(2) that(3))
    with g(3) show ?thesis by simp
  qed
  have keep_f: "flow_session f' = flow_session f"
    if "f \<in> set (flows c)" "f' \<in> set (flows c')" "flow_id f' = flow_id f" for f f'
  proof -
    from inv that(1) have "flow_id f < next_flow_id c"
      unfolding core_inv_def by blast
    with cont that(2,3) obtain g where g: "g \<in> set (flows c)" "flow_id g = flow_id f'"
      "flow_session g = flow_session f'"
      unfolding continues_def by metis
    from inv have "distinct (map flow_id (flows c))"
      unfolding core_inv_def by blast
    from this g(1) that(1) have "g = f"
      by (rule same_id_same_flow) (simp add: g(2) that(3))
    with g(3) show ?thesis by simp
  qed
  have new_s: "stream_id h' \<noteq> stream_id h"
    if "current c = Some s" "current c' = Some s'" "session_id s' \<noteq> session_id s"
       "h' \<in> set (streams c')" "h \<in> set (streams c)" for s s' h h'
  proof
    assume "stream_id h' = stream_id h"
    with that(4,5) have "stream_session h' = stream_session h" by (simp add: keep_s)
    moreover from cur_s that(1,5) have "stream_session h = session_id s" by auto
    moreover from cur_s' that(2,4) have "stream_session h' = session_id s'" by auto
    ultimately show False using that(3) by simp
  qed
  have new_f: "flow_id f' \<noteq> flow_id f"
    if "current c = Some s" "current c' = Some s'" "session_id s' \<noteq> session_id s"
       "f' \<in> set (flows c')" "f \<in> set (flows c)" for s s' f f'
  proof
    assume "flow_id f' = flow_id f"
    with that(4,5) have "flow_session f' = flow_session f" by (simp add: keep_f)
    moreover from cur_f that(1,5) have "flow_session f = session_id s" by auto
    moreover from cur_f' that(2,4) have "flow_session f' = session_id s'" by auto
    ultimately show False using that(3) by simp
  qed
  show ?thesis
    using cur_s cur_f keep_s keep_f new_s new_f by blast
qed

lemma example_run_replaced:
  "run example_config
     (run example_config (initial [Inr accepting, Inr accepting]) [OpenStream ''a:80''])
     [SessionFails, OpenStream ''b:80''] =
     \<lparr>current = Some \<lparr>session_id = 1,
                       capabilities = \<lparr>udp_enabled = True, server_bandwidth = 0\<rparr>,
                       health = Active,
                       congestion = \<lparr>window = 10, rtt_estimate = 0, ack_count = 0,
                                     loss_count = 0\<rparr>\<rparr>,
      streams = [\<lparr>stream_id = 1, stream_session = 1, destination = ''b:80'',
                  bytes_sent = 0, bytes_received = 0\<rparr>],
      flows = [], next_session_id = 2, next_stream_id = 2, next_flow_id = 0,
      events = [(0, Connecting), (0, Authenticating), (0, Active), (0, Failed),
                (1, Connecting), (1, Authenticating), (1, Active)],
      network = []\<rparr>"
  by (simp add: run_def openStream_def acquireSession_def attempt_once_def authenticate_def
      emit_def initial_def example_config_def accepting_def initial_congestion_def Let_def
      onSessionFailure_def)

lemma example_run_one_stream:
  "run example_config (initial [Inr accepting, Inr accepting]) [OpenStream ''a:80''] =
     \<lparr>current = Some \<lparr>session_id = 0,
                       capabilities = \<lparr>udp_enabled = True, server_bandwidth = 0\<rparr>,
                       health = Active,
                       congestion = \<lparr>window = 10, rtt_estimate = 0, ack_count = 0,
                                     loss_count = 0\<rparr>\<rparr>,
      streams = [\<lparr>stream_id = 0, stream_session = 0, destination = ''a:80'',
                  bytes_sent = 0, bytes_received = 0\<rparr>],
      flows = [], next_session_id = 1, next_stream_id = 1, next_flow_id = 0,
      events = [(0, Connecting), (0, Authenticating), (0, Active)],
      network = [Inr accepting]\<rparr>"
  by (simp add: run_def openStream_def acquireSession_def attempt_once_def authenticate_def
      emit_def initial_def example_config_def accepting_def initial_congestion_def Let_def)

theorem handles_never_rebound_witness:
  "map (\<lambda>h. (stream_id h, stream_session h))
     (streams (run example_config (initial [Inr accepting, Inr accepting]) [OpenStream ''a:80'']))
     = [(0, 0)]
   \<and> map (\<lambda>h. (stream_id h, stream_session h))
       (streams (run example_config
          (run example_config (initial [Inr accepting, Inr accepting]) [OpenStream ''a:80''])
          [SessionFails, OpenStream ''b:80'']))
     = [(1, 1)]
   \<and> stream_id (hd (streams (run example_config
          (run example_config (initial [Inr accepting, Inr accepting]) [OpenStream ''a:80''])
          [SessionFails, OpenStream ''b:80''])))
     \<noteq> stream_id (hd (streams
          (run example_config (initial [Inr accepting, Inr accepting]) [OpenStream ''a:80''])))"
proof -
  let ?c = "run example_config (initial [Inr accepting, Inr accepting]) [OpenStream ''a:80'']"
  let ?c' = "run example_config ?c [SessionFails, OpenStream ''b:80'']"
  have before: "map (\<lambda>h. (stream_id h, stream_session h)) (streams ?c) = [(0, 0)]"
    unfolding example_run_one_stream by simp
  have after: "map (\<lambda>h. (stream_id h, stream_session h)) (streams ?c') = [(1, 1)]"
    unfolding example_run_replaced by simp
  have cur: "\<exists>s. current ?c = Some s \<and> session_id s = 0"
    unfolding example_run_one_stream by simp
  have cur': "\<exists>s. current ?c' = Some s \<and> session_id s = 1"
    unfolding example_run_replaced by simp
  have open_before: "hd (streams ?c) \<in> set (streams ?c)"
    unfolding example_run_one_stream by simp
  have open_after: "hd (streams ?c') \<in> set (streams ?c')"
    unfolding example_run_replaced by simp
  from handles_never_rebound
    [where c = ?c and cfg = example_config and net = "[Inr accepting, Inr accepting]"
       and cmds = "[OpenStream ''a:80'']" and later = "[SessionFails, OpenStream ''b:80'']"
       and c' = ?c', OF refl refl]
    cur cur'
  have "\<forall>h' \<in> set (streams ?c'). \<forall>h \<in> set (streams ?c). stream_id h' \<noteq> stream_id h"
    by (metis zero_neq_one)
  with open_before open_after
  have "stream_id (hd (streams ?c')) \<noteq> stream_id (hd (streams ?c))"
    by blast
  with before after show ?thesis by blast
qed

end
